theory Spec2Isabelle
  imports Main
begin

unbundle bit_operations_syntax

section \<open>The hash: \<^verbatim>\<open>crypto.createHash('sha256').update(value).digest('hex')\<close>\<close>

text \<open>
  \<^verbatim>\<open>calculateHash\<close> hands a string to the SHA-256 of the runtime's crypto library and
  renders the digest as 64 lower-case hexadecimal characters. The digest function is
  written out here after FIPS 180-4, on 32-bit words kept as integers below \<open>2^32\<close>
  (every sum is reduced modulo \<open>2^32\<close>). The round constants and the initial state are
  given in decimal. A character of a model string is a code
  point below 256; the library hashes the UTF-8 bytes of the string, so a code point
  from 128 on is two bytes.
\<close>

type_synonym w32 = int

text \<open>Reduction modulo \<open>2^32\<close>.\<close>

definition wrap :: "int \<Rightarrow> w32" where
  "wrap x = x AND 4294967295"

text \<open>
  Rotation to the right by \<open>n\<close> bits, given \<open>p = 2^n\<close> and \<open>q = 2^(32 - n)\<close>: the
  high bits move down, the low \<open>n\<close> bits move to the top.
\<close>

definition rotr :: "int \<Rightarrow> int \<Rightarrow> w32 \<Rightarrow> w32" where
  "rotr p q x = x div p + (x AND (p - 1)) * q"

definition Kc :: "w32 list" where
  "Kc = [1116352408, 1899447441, 3049323471, 3921009573, 961987163, 1508970993,
     2453635748, 2870763221, 3624381080, 310598401, 607225278, 1426881987,
     1925078388, 2162078206, 2614888103, 3248222580, 3835390401, 4022224774,
     264347078, 604807628, 770255983, 1249150122, 1555081692, 1996064986,
     2554220882, 2821834349, 2952996808, 3210313671, 3336571891, 3584528711,
     113926993, 338241895, 666307205, 773529912, 1294757372, 1396182291,
     1695183700, 1986661051, 2177026350, 2456956037, 2730485921, 2820302411,
     3259730800, 3345764771, 3516065817, 3600352804, 4094571909, 275423344,
     430227734, 506948616, 659060556, 883997877, 958139571, 1322822218,
     1537002063, 1747873779, 1955562222, 2024104815, 2227730452, 2361852424,
     2428436474, 2756734187, 3204031479, 3329325298]"

definition H0 :: "w32 list" where
  "H0 = [1779033703, 3144134277, 1013904242, 2773480762, 1359893119, 2600822924,
     528734635, 1541459225]"

text \<open>\<open>ROTR 7\<close>, \<open>ROTR 18\<close>, \<open>SHR 3\<close>; \<open>ROTR 17\<close>, \<open>ROTR 19\<close>, \<open>SHR 10\<close>.\<close>

definition ssig0 :: "w32 \<Rightarrow> w32" where
  "ssig0 x = rotr 128 33554432 x XOR rotr 262144 16384 x XOR x div 8"

definition ssig1 :: "w32 \<Rightarrow> w32" where
  "ssig1 x = rotr 131072 32768 x XOR rotr 524288 8192 x XOR x div 1024"

text \<open>\<open>ROTR 2\<close>, \<open>ROTR 13\<close>, \<open>ROTR 22\<close>; \<open>ROTR 6\<close>, \<open>ROTR 11\<close>, \<open>ROTR 25\<close>.\<close>

definition bsig0 :: "w32 \<Rightarrow> w32" where
  "bsig0 x = rotr 4 1073741824 x XOR rotr 8192 524288 x XOR rotr 4194304 1024 x"

definition bsig1 :: "w32 \<Rightarrow> w32" where
  "bsig1 x = rotr 64 67108864 x XOR rotr 2048 2097152 x XOR rotr 33554432 128 x"

definition ch :: "w32 \<Rightarrow> w32 \<Rightarrow> w32 \<Rightarrow> w32" where
  "ch x y z = (x AND y) XOR ((4294967295 - x) AND z)"

definition maj :: "w32 \<Rightarrow> w32 \<Rightarrow> w32 \<Rightarrow> w32" where
  "maj x y z = (x AND y) XOR (x AND z) XOR (y AND z)"

definition mix :: "w32 \<Rightarrow> w32 \<Rightarrow> w32 list \<Rightarrow> w32 list" where
  "mix t1 t2 st = (case st of
      [a, b, c, d, e, f, g, h] \<Rightarrow> [wrap (t1 + t2), a, b, c, wrap (d + t1), e, f, g]
    | _ \<Rightarrow> st)"

text \<open>
  One round per round constant. The second argument is the sliding window of the sixteen
  most recent words of the message schedule, oldest first.
\<close>

fun rounds :: "w32 list \<Rightarrow> w32 list \<Rightarrow> w32 list \<Rightarrow> w32 list" where
  "rounds [a,b,c,d,e,f,g,h] [w0,w1,w2,w3,w4,w5,w6,w7,w8,w9,w10,w11,w12,w13,w14,w15] (k # ks) =
     rounds
       (mix (wrap (h + bsig1 e + ch e f g + k + w0))
            (wrap (bsig0 a + maj a b c)) [a,b,c,d,e,f,g,h])
       [w1,w2,w3,w4,w5,w6,w7,w8,w9,w10,w11,w12,w13,w14,w15,
        wrap (ssig1 w14 + w9 + ssig0 w1 + w0)] ks"
| "rounds st _ _ = st"

fun be32 :: "int list \<Rightarrow> w32 list" where
  "be32 (a # b # c # d # r) = (((a * 256 + b) * 256 + c) * 256 + d) # be32 r"
| "be32 _ = []"

fun add_state :: "w32 list \<Rightarrow> w32 list \<Rightarrow> w32 list" where
  "add_state (x # xs) (y # ys) = wrap (x + y) # add_state xs ys"
| "add_state _ _ = []"

definition compress :: "w32 list \<Rightarrow> w32 list \<Rightarrow> w32 list" where
  "compress st ws = add_state st (rounds st ws Kc)"

fun blocks :: "w32 list \<Rightarrow> w32 list \<Rightarrow> w32 list" where
  "blocks st (w0#w1#w2#w3#w4#w5#w6#w7#w8#w9#w10#w11#w12#w13#w14#w15#r) =
     blocks (compress st [w0,w1,w2,w3,w4,w5,w6,w7,w8,w9,w10,w11,w12,w13,w14,w15]) r"
| "blocks st _ = st"

fun ilength :: "'a list \<Rightarrow> int" where
  "ilength [] = 0"
| "ilength (x # xs) = 1 + ilength xs"

fun zeros :: "nat \<Rightarrow> int list" where
  "zeros 0 = []"
| "zeros (Suc n) = 0 # zeros n"

definition pad :: "int list \<Rightarrow> int list" where
  "pad bs = bs @ [128] @ zeros (nat ((119 - ilength bs mod 64) mod 64)) @
     [0, 0, 0, ilength bs div 536870912 mod 256, ilength bs div 2097152 mod 256,
      ilength bs div 8192 mod 256, ilength bs div 32 mod 256, ilength bs * 8 mod 256]"

fun utf8 :: "string \<Rightarrow> int list" where
  "utf8 [] = []"
| "utf8 (c # cs) = (if (of_char c :: int) < 128 then [of_char c]
      else [192 + of_char c div 64, 128 + of_char c mod 64]) @ utf8 cs"

definition hexd :: "int \<Rightarrow> char" where
  "hexd n = (if n < 10 then char_of (48 + n) else char_of (87 + n))"

definition hex32 :: "w32 \<Rightarrow> string" where
  "hex32 w = [hexd (w div 268435456 AND 15), hexd (w div 16777216 AND 15),
     hexd (w div 1048576 AND 15), hexd (w div 65536 AND 15), hexd (w div 4096 AND 15),
     hexd (w div 256 AND 15), hexd (w div 16 AND 15), hexd (w AND 15)]"

fun word_at :: "w32 list \<Rightarrow> nat \<Rightarrow> w32" where
  "word_at [] n = 0"
| "word_at (w # ws) 0 = w"
| "word_at (w # ws) (Suc n) = word_at ws n"

definition digest_hex :: "w32 list \<Rightarrow> string" where
  "digest_hex st = hex32 (word_at st 0) @ hex32 (word_at st 1) @ hex32 (word_at st 2) @
     hex32 (word_at st 3) @ hex32 (word_at st 4) @ hex32 (word_at st 5) @
     hex32 (word_at st 6) @ hex32 (word_at st 7)"

definition calculateHash :: "string \<Rightarrow> string" where
  "calculateHash v = digest_hex (blocks H0 (be32 (pad (utf8 v))))"

lemma length_calculateHash: "length (calculateHash v) = 64"
  by (simp add: calculateHash_def digest_hex_def hex32_def)

lemma sha256_abc:
  "calculateHash ''abc'' = ''ba7816bf8f01cfea414140de5dae2223b00361a396177a9cb410ff61f20015ad''"
  by code_simp


section \<open>Values, and what \<^verbatim>\<open>JSON.stringify\<close> makes of them\<close>

text \<open>
  A snapshot is a JSON-like value. Numbers are integers here, and \<open>JNum i\<close> stands for
  the number \<open>i\<close> as long as \<open>i\<close> is a safe integer (of magnitude below \<open>2^53\<close>): these
  the runtime holds exactly and \<^verbatim>\<open>JSON.stringify\<close> prints digit by digit. A fraction or
  a larger number would need the runtime's floating-point printing (exponent form from
  \<open>10^21\<close> on), which is not modelled. \<open>JObj\<close> and \<open>JArr\<close> hold the own enumerable
  properties of the object in the order the runtime enumerates them.
\<close>

datatype json =
    JNull
  | JBool bool
  | JNum int
  | JStr string
  | JArr "json list"
  | JObj "(string \<times> json) list"

definition digit_char :: "nat \<Rightarrow> char" where
  "digit_char n = ''0123456789'' ! n"

function string_of_nat :: "nat \<Rightarrow> string" where
  "string_of_nat n = (if n < 10 then [digit_char n]
     else string_of_nat (n div 10) @ [digit_char (n mod 10)])"
  by pat_completeness auto
termination
  by (relation "measure (\<lambda>n. n)") auto

declare string_of_nat.simps [simp del]

definition string_of_int :: "int \<Rightarrow> string" where
  "string_of_int i = (if i < 0 then CHR ''-'' # string_of_nat (nat (- i)) else string_of_nat (nat i))"

definition hex_char :: "nat \<Rightarrow> char" where
  "hex_char n = ''0123456789abcdef'' ! n"

text \<open>The escapes of \<^verbatim>\<open>JSON.stringify\<close> inside a quoted string.\<close>

definition escape_char :: "char \<Rightarrow> string" where
  "escape_char c =
     (if c = CHR 0x22 then [CHR 0x5C, CHR 0x22]
      else if c = CHR 0x5C then [CHR 0x5C, CHR 0x5C]
      else if c = CHR 0x08 then [CHR 0x5C, CHR ''b'']
      else if c = CHR 0x0C then [CHR 0x5C, CHR ''f'']
      else if c = CHR 0x0A then [CHR 0x5C, CHR ''n'']
      else if c = CHR 0x0D then [CHR 0x5C, CHR ''r'']
      else if c = CHR 0x09 then [CHR 0x5C, CHR ''t'']
      else if (of_char c :: nat) < 32
        then [CHR 0x5C, CHR ''u'', CHR ''0'', CHR ''0'',
              hex_char (of_char c div 16), hex_char (of_char c mod 16)]
      else [c])"

definition quote :: "string \<Rightarrow> string" where
  "quote s = [CHR 0x22] @ concat (map escape_char s) @ [CHR 0x22]"

fun join :: "string \<Rightarrow> string list \<Rightarrow> string" where
  "join sep [] = []"
| "join sep [x] = x"
| "join sep (x # y # ys) = x @ sep @ join sep (y # ys)"

fun stringify :: "json \<Rightarrow> string"
  and stringify_elems :: "json list \<Rightarrow> string list"
  and stringify_members :: "(string \<times> json) list \<Rightarrow> string list" where
  "stringify JNull = ''null''"
| "stringify (JBool b) = (if b then ''true'' else ''false'')"
| "stringify (JNum i) = string_of_int i"
| "stringify (JStr s) = quote s"
| "stringify (JArr xs) = ''['' @ join '','' (stringify_elems xs) @ '']''"
| "stringify (JObj kvs) = ''{'' @ join '','' (stringify_members kvs) @ ''}''"
| "stringify_elems [] = []"
| "stringify_elems (x # xs) = stringify x # stringify_elems xs"
| "stringify_members [] = []"
| "stringify_members (kv # kvs) = (quote (fst kv) @ '':'' @ stringify (snd kv)) # stringify_members kvs"

text \<open>\<^verbatim>\<open>typeof x === 'object' && x !== null\<close>\<close>

fun is_object :: "json \<Rightarrow> bool" where
  "is_object (JArr xs) = True"
| "is_object (JObj kvs) = True"
| "is_object _ = False"

text \<open>
  The own enumerable properties in enumeration order, as \<^verbatim>\<open>for (const key in x)\<close> and
  \<^verbatim>\<open>Object.keys(x)\<close> visit them. An array has its indices, a string primitive its
  character positions, the other primitives and \<^verbatim>\<open>null\<close> have none.
\<close>

fun indexed :: "nat \<Rightarrow> 'a list \<Rightarrow> (string \<times> 'a) list" where
  "indexed i [] = []"
| "indexed i (x # xs) = (string_of_nat i, x) # indexed (Suc i) xs"

fun own_props :: "json \<Rightarrow> (string \<times> json) list" where
  "own_props (JObj kvs) = kvs"
| "own_props (JArr xs) = indexed 0 xs"
| "own_props (JStr s) = indexed 0 (map (\<lambda>c. JStr [c]) s)"
| "own_props _ = []"

text \<open>
  Besides its own enumerable properties an object has the properties it inherits. The
  names below are the ones that \<^verbatim>\<open>Object.prototype\<close> and \<^verbatim>\<open>Array.prototype\<close> give to
  every object and to every array (ECMAScript 2023, string-named properties); an array
  has its own \<^verbatim>\<open>length\<close> as well. None of them is enumerable, so \<^verbatim>\<open>for ... in\<close>,
  \<^verbatim>\<open>Object.keys\<close> and \<^verbatim>\<open>JSON.stringify\<close> do not see them, while \<^verbatim>\<open>key in x\<close> and
  \<^verbatim>\<open>x[key]\<close> do.
\<close>

definition object_prototype_names :: "string list" where
  "object_prototype_names =
     [''constructor'', ''hasOwnProperty'', ''isPrototypeOf'', ''propertyIsEnumerable'',
      ''toLocaleString'', ''toString'', ''valueOf'', ''__proto__'',
      ''__defineGetter__'', ''__defineSetter__'', ''__lookupGetter__'', ''__lookupSetter__'']"

definition array_prototype_names :: "string list" where
  "array_prototype_names =
     [''at'', ''concat'', ''copyWithin'', ''entries'', ''every'', ''fill'', ''filter'', ''find'',
      ''findIndex'', ''findLast'', ''findLastIndex'', ''flat'', ''flatMap'', ''forEach'',
      ''includes'', ''indexOf'', ''join'', ''keys'', ''lastIndexOf'', ''map'', ''pop'', ''push'',
      ''reduce'', ''reduceRight'', ''reverse'', ''shift'', ''slice'', ''some'', ''sort'', ''splice'',
      ''toReversed'', ''toSorted'', ''toSpliced'', ''unshift'', ''values'', ''with'']"

fun hidden_property :: "json \<Rightarrow> string \<Rightarrow> bool" where
  "hidden_property (JObj kvs) key = (key \<in> set object_prototype_names)"
| "hidden_property (JArr xs) key =
     (key = ''length'' \<or> key \<in> set array_prototype_names \<or> key \<in> set object_prototype_names)"
| "hidden_property _ key = False"

text \<open>
  \<^verbatim>\<open>x[key]\<close>, as far as this program can tell values apart. An own enumerable property
  gives its value, and \<^verbatim>\<open>length\<close> of an array or of a string gives the number of
  elements. \<open>None\<close> stands for \<^verbatim>\<open>undefined\<close> and for an inherited method alike: the
  program reads \<^verbatim>\<open>x[key]\<close> under an inherited name only in \<^verbatim>\<open>processKeyValue\<close>,
  where neither has the \<^verbatim>\<open>typeof\<close> \<^verbatim>\<open>'object'\<close> and \<^verbatim>\<open>JSON.stringify\<close> maps both to
  \<^verbatim>\<open>undefined\<close>, which the hash function refuses with a \<^verbatim>\<open>TypeError\<close>. (The name
  \<^verbatim>\<open>type\<close>, read elsewhere, is not inherited.) The prototype object that an inherited
  \<^verbatim>\<open>__proto__\<close> gives is not a value of the model, and the lookup is \<open>None\<close> there as
  well. The program reads it only for a stored node with an own child \<^verbatim>\<open>__proto__\<close>,
  and no operation of the engine makes such a child: \<^verbatim>\<open>buildHashTree\<close> drops the key,
  \<^verbatim>\<open>processAddedKeys\<close> finds it in every node, and the other assignments go to keys
  that the node has already.
\<close>

fun length_property :: "json \<Rightarrow> string \<Rightarrow> json option" where
  "length_property (JArr xs) key = (if key = ''length'' then Some (JNum (int (length xs))) else None)"
| "length_property (JStr s) key = (if key = ''length'' then Some (JNum (int (length s))) else None)"
| "length_property _ key = None"

definition js_get :: "json \<Rightarrow> string \<Rightarrow> json option" where
  "js_get x key =
     (case map_of (own_props x) key of
        Some v \<Rightarrow> Some v
      | None \<Rightarrow> length_property x key)"

text \<open>
  \<^verbatim>\<open>key in x\<close>: a \<^verbatim>\<open>TypeError\<close> (\<open>None\<close>) unless \<open>x\<close> is an object or an array;
  there it follows the prototype chain.
\<close>

definition js_in :: "string \<Rightarrow> json \<Rightarrow> bool option" where
  "js_in key x =
     (if is_object x then Some (map_of (own_props x) key \<noteq> None \<or> hidden_property x key)
      else None)"

text \<open>Truthiness of \<^verbatim>\<open>x.type\<close>.\<close>

fun truthy :: "json option \<Rightarrow> bool" where
  "truthy None = False"
| "truthy (Some JNull) = False"
| "truthy (Some (JBool b)) = b"
| "truthy (Some (JNum i)) = (i \<noteq> 0)"
| "truthy (Some (JStr s)) = (s \<noteq> [])"
| "truthy (Some (JArr xs)) = True"
| "truthy (Some (JObj kvs)) = True"


section \<open>Objects of the runtime: properties in enumeration order\<close>

text \<open>
  A hash tree node is an ordinary object: the digest sits under the key \<^verbatim>\<open>__hash\<close>,
  beside the children, which sit under their own keys. An object enumerates the keys that
  are array indices first (canonical decimal numerals below \<open>2^32 - 1\<close>), in ascending
  numeric order, and then the other keys in the order they were created.
\<close>

datatype hval = HStr string | HNode "(string \<times> hval) list"

type_synonym HashTreeNode = "(string \<times> hval) list"

text \<open>
  \<^verbatim>\<open>key in hashTree\<close>: a node is a plain object, so the test finds the node's own
  properties and the names inherited from \<^verbatim>\<open>Object.prototype\<close>.
\<close>

definition has_property :: "string \<Rightarrow> HashTreeNode \<Rightarrow> bool" where
  "has_property key hashTree = (map_of hashTree key \<noteq> None \<or> key \<in> set object_prototype_names)"

definition is_digit :: "char \<Rightarrow> bool" where
  "is_digit c = (48 \<le> (of_char c :: nat) \<and> (of_char c :: nat) \<le> 57)"

fun dec_value :: "nat \<Rightarrow> string \<Rightarrow> nat" where
  "dec_value acc [] = acc"
| "dec_value acc (c # cs) = dec_value (acc * 10 + (of_char c - 48)) cs"

definition array_index :: "string \<Rightarrow> nat option" where
  "array_index k =
     (if k \<noteq> [] \<and> list_all is_digit k \<and> (k = ''0'' \<or> hd k \<noteq> CHR ''0'')
         \<and> dec_value 0 k < 4294967295
      then Some (dec_value 0 k) else None)"

text \<open>Creating a property that the object does not have yet.\<close>

fun insert_prop :: "string \<Rightarrow> 'a \<Rightarrow> (string \<times> 'a) list \<Rightarrow> (string \<times> 'a) list" where
  "insert_prop k v [] = [(k, v)]"
| "insert_prop k v (p # ps) =
     (case array_index k of
        None \<Rightarrow> p # insert_prop k v ps
      | Some i \<Rightarrow>
          (case array_index (fst p) of
             None \<Rightarrow> (k, v) # p # ps
           | Some j \<Rightarrow> if i < j then (k, v) # p # ps else p # insert_prop k v ps))"

text \<open>\<^verbatim>\<open>obj[k] = v\<close>: an existing property keeps its place.\<close>

definition set_prop :: "string \<Rightarrow> 'a \<Rightarrow> (string \<times> 'a) list \<Rightarrow> (string \<times> 'a) list" where
  "set_prop k v ps =
     (if map_of ps k \<noteq> None then map (\<lambda>p. if fst p = k then (k, v) else p) ps
      else insert_prop k v ps)"

text \<open>\<^verbatim>\<open>delete obj[k]\<close>\<close>

definition delete_prop :: "string \<Rightarrow> (string \<times> 'a) list \<Rightarrow> (string \<times> 'a) list" where
  "delete_prop k ps = filter (\<lambda>p. fst p \<noteq> k) ps"

text \<open>\<^verbatim>\<open>{...target, ...source}\<close> and \<^verbatim>\<open>Object.fromEntries\<close>: one assignment per entry.\<close>

definition assign :: "(string \<times> 'a) list \<Rightarrow> (string \<times> 'a) list \<Rightarrow> (string \<times> 'a) list" where
  "assign target source = foldl (\<lambda>t p. set_prop (fst p) (snd p) t) target source"

text \<open>
  \<^verbatim>\<open>Array.prototype.sort\<close> without a comparator orders strings by their code units.
  The keys of an object are distinct, so the order of equal elements does not show.
\<close>

fun str_le :: "string \<Rightarrow> string \<Rightarrow> bool" where
  "str_le [] t = True"
| "str_le (a # s) [] = False"
| "str_le (a # s) (b # t) =
     ((of_char a :: nat) < of_char b \<or> ((of_char a :: nat) = of_char b \<and> str_le s t))"

fun insort_str :: "string \<Rightarrow> string list \<Rightarrow> string list" where
  "insort_str k [] = [k]"
| "insort_str k (x # xs) = (if str_le k x then k # x # xs else x # insort_str k xs)"

definition sort_keys :: "string list \<Rightarrow> string list" where
  "sort_keys ks = foldr insort_str ks []"

text \<open>
  \<^verbatim>\<open>value.__hash\<close> read off a stored value, inside a template literal
  (\<^verbatim>\<open>undefined\<close> prints as such) and inside \<^verbatim>\<open>Array.prototype.join\<close>
  (\<^verbatim>\<open>undefined\<close> prints as nothing). A string primitive has no such property.
\<close>

fun hash_slot :: "hval \<Rightarrow> hval option" where
  "hash_slot (HStr s) = None"
| "hash_slot (HNode ps) = map_of ps ''__hash''"

fun template_text :: "hval option \<Rightarrow> string" where
  "template_text None = ''undefined''"
| "template_text (Some (HStr s)) = s"
| "template_text (Some (HNode ps)) = ''[object Object]''"

fun join_text :: "hval option \<Rightarrow> string" where
  "join_text None = []"
| "join_text (Some (HStr s)) = s"
| "join_text (Some (HNode ps)) = ''[object Object]''"

section \<open>\<^verbatim>\<open>buildHashTree\<close>\<close>

lemma size_map_of:
  "map_of kvs k = Some (v :: json) \<Longrightarrow> size v < Suc (size_list (size_prod (\<lambda>x. 0) size) kvs)"
  by (induction kvs) (auto split: if_splits)

lemma size_nth_lt:
  "i < length xs \<Longrightarrow> size (xs ! i :: json) < Suc (size_list size xs)"
proof (induction xs arbitrary: i)
  case Nil
  then show ?case by simp
next
  case (Cons a xs)
  show ?case
  proof (cases i)
    case 0
    then show ?thesis by simp
  next
    case (Suc j)
    with Cons.prems have "j < length xs" by simp
    from Cons.IH [OF this] Suc show ?thesis by simp
  qed
qed

lemma map_of_indexed_mem: "map_of (indexed i xs) key = Some v \<Longrightarrow> v \<in> set xs"
  by (induction xs arbitrary: i) (auto split: if_splits)

lemma size_mem_lt: "(v :: json) \<in> set xs \<Longrightarrow> size v < Suc (size_list size xs)"
  by (induction xs) auto

lemma length_property_not_object: "length_property d k = Some v \<Longrightarrow> \<not> is_object v"
  by (cases d) (auto split: if_splits)

lemma js_get_own: "js_get d k = Some v \<Longrightarrow> is_object v \<Longrightarrow> map_of (own_props d) k = Some v"
  by (auto simp: js_get_def split: option.splits dest: length_property_not_object)

lemma js_get_obj: "js_get (JObj kvs) k = map_of kvs k"
  by (simp add: js_get_def split: option.splits)

lemma js_get_size: "js_get d k = Some v \<Longrightarrow> is_object v \<or> is_object d \<Longrightarrow> size v < size d"
proof (cases d)
  case (JObj kvs)
  assume "js_get d k = Some v"
  with JObj show ?thesis by (auto simp: js_get_def dest: size_map_of split: option.splits)
next
  case (JArr xs)
  assume "js_get d k = Some v"
  with JArr show ?thesis
    by (auto simp: js_get_def split: option.splits if_splits
             dest!: map_of_indexed_mem dest: size_mem_lt)
next
  case (JStr s)
  assume "js_get d k = Some v" and "is_object v \<or> is_object d"
  with JStr show ?thesis
    by (auto simp: js_get_def split: option.splits if_splits dest!: map_of_indexed_mem)
qed (auto simp: js_get_def)

text \<open>
  The four cases of the source, in its order: primitive or \<^verbatim>\<open>null\<close>; array; object
  with a truthy \<^verbatim>\<open>type\<close>; any other object. In the last case \<^verbatim>\<open>data[key]\<close> is read
  for a key of \<^verbatim>\<open>Object.keys(data)\<close>, so it is never \<^verbatim>\<open>undefined\<close>; the model leaves
  the accumulator as it is there. The assignment \<^verbatim>\<open>tree[key] = ...\<close> creates an own
  property of the accumulator for every key but \<^verbatim>\<open>__proto__\<close>: there it runs the
  inherited setter, which makes the built node the prototype of the accumulator and
  creates no property, and neither \<^verbatim>\<open>Object.entries\<close> nor the spread sees a prototype.
\<close>

function buildHashTree :: "json \<Rightarrow> HashTreeNode" where
  "buildHashTree data =
     (if \<not> is_object data then [(''__hash'', HStr (calculateHash (stringify data)))]
      else case data of
        JArr xs \<Rightarrow>
          (let childHashes = map (\<lambda>i. buildHashTree (xs ! i)) [0..<length xs];
               combinedHash = calculateHash
                 (concat (map (\<lambda>h. join_text (hash_slot (HNode h))) childHashes))
           in assign [(''__hash'', HStr combinedHash)]
                (assign [] (map (\<lambda>i. (string_of_nat i, HNode (childHashes ! i)))
                              [0..<length childHashes])))
      | _ \<Rightarrow>
          (if truthy (js_get data ''type'')
           then [(''__hash'', HStr (calculateHash (stringify data)))]
           else
             (let childHashes =
                    foldl (\<lambda>tree key. case js_get data key of
                              None \<Rightarrow> tree
                            | Some v \<Rightarrow>
                                if key = ''__proto__'' then tree
                                else set_prop key (HNode (buildHashTree v)) tree)
                      [] (sort_keys (map fst (own_props data)));
                  combinedHash = calculateHash
                    (concat (map (\<lambda>p. fst p @ '':'' @ template_text (hash_slot (snd p)))
                               childHashes))
              in assign [(''__hash'', HStr combinedHash)] childHashes)))"
  by pat_completeness auto
termination
  by (relation "measure size") (auto simp: size_nth_lt dest: js_get_size)

declare buildHashTree.simps [simp del]


section \<open>The differencing engine\<close>

datatype change = added | removed | modified

datatype DifferenceEvent = DifferenceEvent change string

text \<open>
  The engine mutates its tree in place and emits events as it goes, so an operation that
  throws leaves behind whatever it had done so far: both outcomes carry the tree and the
  events emitted up to that point.
\<close>

type_synonym engine_state = "HashTreeNode \<times> DifferenceEvent list"

datatype outcome = Returned engine_state | TypeError engine_state

fun state_of :: "outcome \<Rightarrow> engine_state" where
  "state_of (Returned s) = s"
| "state_of (TypeError s) = s"

text \<open>\<^verbatim>\<open>path ? `${path}.${key}` : key\<close>\<close>

definition currentPath :: "string \<Rightarrow> string \<Rightarrow> string" where
  "currentPath path key = (if path \<noteq> [] then path @ ''.'' @ key else key)"

text \<open>
  \<^verbatim>\<open>processPrimitiveValue\<close>, and the branch of \<^verbatim>\<open>processObjectValue\<close> for an object
  with a truthy \<^verbatim>\<open>type\<close>, do the same with the new digest: compare it with
  \<^verbatim>\<open>hashTree[key].__hash\<close> and, when they differ, emit \<open>modified\<close> and assign the
  \<^verbatim>\<open>__hash\<close> property of the stored child. The child object itself stays, with whatever
  other properties it has. Assigning a property of a string primitive throws in strict
  code, after the event has gone out; reading a property of \<^verbatim>\<open>undefined\<close> throws at once.
\<close>

definition compareLeaf ::
  "HashTreeNode \<Rightarrow> string \<Rightarrow> string \<Rightarrow> string \<Rightarrow> DifferenceEvent list \<Rightarrow> outcome" where
  "compareLeaf hashTree newPrimitiveHash key cpath evs =
     (case map_of hashTree key of
        Some (HNode child) \<Rightarrow>
          if map_of child ''__hash'' \<noteq> Some (HStr newPrimitiveHash)
          then Returned (set_prop key (HNode (set_prop ''__hash'' (HStr newPrimitiveHash) child)) hashTree,
                         evs @ [DifferenceEvent modified cpath])
          else Returned (hashTree, evs)
      | Some (HStr s) \<Rightarrow> TypeError (hashTree, evs @ [DifferenceEvent modified cpath])
      | None \<Rightarrow> TypeError (hashTree, evs))"

definition processPrimitiveValue ::
  "HashTreeNode \<Rightarrow> json \<Rightarrow> string \<Rightarrow> string \<Rightarrow> DifferenceEvent list \<Rightarrow> outcome" where
  "processPrimitiveValue hashTree jsonValue key cpath evs =
     compareLeaf hashTree (calculateHash (stringify jsonValue)) key cpath evs"

text \<open>
  \<^verbatim>\<open>processAddedKeys\<close>: the loop over the keys of the new data. A key that the node
  has, as an own property or by inheritance, is passed over; any other key gets an
  \<open>added\<close> event and a new own property of the node.
\<close>

fun processAddedKeys ::
  "string list \<Rightarrow> HashTreeNode \<Rightarrow> json \<Rightarrow> string \<Rightarrow> DifferenceEvent list \<Rightarrow> engine_state" where
  "processAddedKeys [] hashTree jsonData path evs = (hashTree, evs)"
| "processAddedKeys (key # keys) hashTree jsonData path evs =
     (if \<not> has_property key hashTree
      then (case js_get jsonData key of
              None \<Rightarrow> processAddedKeys keys hashTree jsonData path evs
            | Some jsonValue \<Rightarrow>
                processAddedKeys keys
                  (set_prop key
                     (HNode (if is_object jsonValue then buildHashTree jsonValue
                             else [(''__hash'', HStr (calculateHash (stringify jsonValue)))]))
                     hashTree)
                  jsonData path (evs @ [DifferenceEvent added (currentPath path key)]))
      else processAddedKeys keys hashTree jsonData path evs)"

text \<open>The digest that \<^verbatim>\<open>findDifferencesAndUpdate\<close> stores at the end.\<close>

definition entriesHash :: "HashTreeNode \<Rightarrow> string" where
  "entriesHash hashTree = calculateHash
     (concat (map (\<lambda>p. fst p @ '':'' @ template_text (hash_slot (snd p)))
                (filter (\<lambda>p. fst p \<noteq> ''__hash'') hashTree)))"

text \<open>
  \<^verbatim>\<open>hashTree[key]\<close> as \<^verbatim>\<open>processObjectValue\<close> hands it to the recursive call: anything
  that is not an object is first replaced by \<^verbatim>\<open>{ __hash: '' }\<close>.
\<close>

fun childNode :: "hval option \<Rightarrow> HashTreeNode" where
  "childNode (Some (HNode child)) = child"
| "childNode _ = [(''__hash'', HStr [])]"

fun put_child :: "string \<Rightarrow> HashTreeNode \<Rightarrow> outcome \<Rightarrow> outcome" where
  "put_child key hashTree (Returned (child, evs)) = Returned (set_prop key (HNode child) hashTree, evs)"
| "put_child key hashTree (TypeError (child, evs)) = TypeError (set_prop key (HNode child) hashTree, evs)"

function findDifferencesAndUpdate ::
    "HashTreeNode \<Rightarrow> json \<Rightarrow> string \<Rightarrow> DifferenceEvent list \<Rightarrow> outcome"
  and processExistingKeys ::
    "string list \<Rightarrow> HashTreeNode \<Rightarrow> json \<Rightarrow> string \<Rightarrow> DifferenceEvent list \<Rightarrow> outcome"
  and processKeyValue ::
    "HashTreeNode \<Rightarrow> json \<Rightarrow> string \<Rightarrow> string \<Rightarrow> DifferenceEvent list \<Rightarrow> outcome"
  and processObjectValue ::
    "HashTreeNode \<Rightarrow> json \<Rightarrow> string \<Rightarrow> string \<Rightarrow> DifferenceEvent list \<Rightarrow> outcome" where
  "findDifferencesAndUpdate hashTree jsonData path evs =
     (if map_of hashTree ''__hash'' = Some (HStr (calculateHash (stringify jsonData)))
      then Returned (hashTree, evs)
      else case processExistingKeys (map fst hashTree) hashTree jsonData path evs of
             TypeError s \<Rightarrow> TypeError s
           | Returned (t1, evs1) \<Rightarrow>
               (case processAddedKeys (map fst (own_props jsonData)) t1 jsonData path evs1 of
                  (t2, evs2) \<Rightarrow> Returned (set_prop ''__hash'' (HStr (entriesHash t2)) t2, evs2)))"
| "processExistingKeys [] hashTree jsonData path evs = Returned (hashTree, evs)"
| "processExistingKeys (key # keys) hashTree jsonData path evs =
     (if key = ''__hash'' then processExistingKeys keys hashTree jsonData path evs
      else case js_in key jsonData of
             None \<Rightarrow> TypeError (hashTree, evs)
           | Some False \<Rightarrow>
               processExistingKeys keys (delete_prop key hashTree) jsonData path
                 (evs @ [DifferenceEvent removed (currentPath path key)])
           | Some True \<Rightarrow>
               (case processKeyValue hashTree jsonData key (currentPath path key) evs of
                  TypeError s \<Rightarrow> TypeError s
                | Returned (t1, evs1) \<Rightarrow> processExistingKeys keys t1 jsonData path evs1))"
| "processKeyValue hashTree jsonData key cpath evs =
     (case js_get jsonData key of
        None \<Rightarrow> TypeError (hashTree, evs)
      | Some jsonValue \<Rightarrow>
          if is_object jsonValue then processObjectValue hashTree jsonValue key cpath evs
          else processPrimitiveValue hashTree jsonValue key cpath evs)"
| "processObjectValue hashTree jsonValue key cpath evs =
     (if truthy (js_get jsonValue ''type'')
      then compareLeaf hashTree (calculateHash (stringify jsonValue)) key cpath evs
      else put_child key hashTree
             (findDifferencesAndUpdate (childNode (map_of hashTree key)) jsonValue cpath evs))"
  by pat_completeness auto

termination
  apply (relation "measures
     [case_sum (case_sum (\<lambda>(t, d, p, e). 4 * size d + 3) (\<lambda>(ks, t, d, p, e). 4 * size d + 2))
               (case_sum (\<lambda>(t, d, k, p, e). 4 * size d + 1) (\<lambda>(t, d, k, p, e). 4 * size d + 4)),
      case_sum (case_sum (\<lambda>(t, d, p, e). 0) (\<lambda>(ks, t, d, p, e). length ks))
               (case_sum (\<lambda>(t, d, k, p, e). 0) (\<lambda>(t, d, k, p, e). 0))]")
         apply simp_all
  apply (drule js_get_size)
   apply simp_all
  done

declare findDifferencesAndUpdate.simps [simp del]

text \<open>
  The public operations. The constructor stores \<^verbatim>\<open>{ __hash: '' }\<close>;
  \<^verbatim>\<open>initialize\<close> replaces the stored tree by a built one and emits nothing;
  \<^verbatim>\<open>detectChanges\<close> runs the update on the stored tree from the empty path and
  returns that tree.
\<close>

definition newEngine :: HashTreeNode where
  "newEngine = [(''__hash'', HStr [])]"

definition initialize :: "json \<Rightarrow> HashTreeNode" where
  "initialize jsonData = buildHashTree jsonData"

definition detectChanges :: "HashTreeNode \<Rightarrow> json \<Rightarrow> outcome" where
  "detectChanges previousHashTree jsonData =
     findDifferencesAndUpdate previousHashTree jsonData [] []"


section \<open>Two predicates used by the claims\<close>

text \<open>
  \<open>no_reserved_key\<close>: no object inside the value, at any depth, has a property named
  \<^verbatim>\<open>__hash\<close>. \<open>digest_in_place\<close>: in the node and in every node below it, the
  property \<^verbatim>\<open>__hash\<close> holds a string, and every other property holds a node.
\<close>

fun no_reserved_key :: "json \<Rightarrow> bool"
  and no_reserved_key_elems :: "json list \<Rightarrow> bool"
  and no_reserved_key_members :: "(string \<times> json) list \<Rightarrow> bool" where
  "no_reserved_key (JArr xs) = no_reserved_key_elems xs"
| "no_reserved_key (JObj kvs) = no_reserved_key_members kvs"
| "no_reserved_key _ = True"
| "no_reserved_key_elems [] = True"
| "no_reserved_key_elems (x # xs) = (no_reserved_key x \<and> no_reserved_key_elems xs)"
| "no_reserved_key_members [] = True"
| "no_reserved_key_members (kv # kvs) =
     (fst kv \<noteq> ''__hash'' \<and> no_reserved_key (snd kv) \<and> no_reserved_key_members kvs)"

fun digest_in_place :: "hval \<Rightarrow> bool"
  and digest_in_place_children :: "(string \<times> hval) list \<Rightarrow> bool" where
  "digest_in_place (HStr s) = False"
| "digest_in_place (HNode ps) =
     ((case map_of ps ''__hash'' of Some (HStr d) \<Rightarrow> True | _ \<Rightarrow> False)
      \<and> digest_in_place_children ps)"
| "digest_in_place_children [] = True"
| "digest_in_place_children (p # ps) =
     ((fst p = ''__hash'' \<or> digest_in_place (snd p)) \<and> digest_in_place_children ps)"

section \<open>Evaluating the engine on concrete snapshots\<close>

lemma calculateHash_not_empty [simp]: "calculateHash v \<noteq> []" "[] \<noteq> calculateHash v"
  using length_calculateHash [of v] by auto

lemmas engine_eval =
  detectChanges_def initialize_def newEngine_def buildHashTree.simps
  findDifferencesAndUpdate.simps processPrimitiveValue_def compareLeaf_def entriesHash_def
  currentPath_def js_get_def js_in_def has_property_def object_prototype_names_def
  array_prototype_names_def sort_keys_def assign_def set_prop_def delete_prop_def
  array_index_def is_digit_def quote_def escape_char_def string_of_int_def
  string_of_nat.simps digit_char_def

text \<open>The digests that the worked examples below meet, each computed in the logic.\<close>

lemma sha_1:
  \<open>calculateHash ''1'' =
    ''6b86b273ff34fce19d6b804eff5a3f5747ada4eaa22f1d49c01e52ddb7875b4b''\<close>
  by code_simp

lemma sha_2:
  \<open>calculateHash ''2'' =
    ''d4735e3a265e16eee03f59718b9b5d03019c07d8b6c51f90da3a666eec13ab35''\<close>
  by code_simp

lemma sha_5:
  \<open>calculateHash ''5'' =
    ''ef2d127de37b942baad06145e54b0c619a1f22327b2ebbcfbec78f5564afe39d''\<close>
  by code_simp

lemma sha_str_v:
  \<open>calculateHash ''"v"'' =
    ''d1a4dc8b61ef51fa5f72b229df8d29b26f391b9fbbd3ec9078b7c9f66b9cc59a''\<close>
  by code_simp

lemma sha_str_w:
  \<open>calculateHash ''"w"'' =
    ''7265b875feb0d1730ead43d3408195fb5ab0827b46bd185a737c447c51446c3b''\<close>
  by code_simp

lemma sha_k_v:
  \<open>calculateHash ''k:d1a4dc8b61ef51fa5f72b229df8d29b26f391b9fbbd3ec9078b7c9f66b9cc59a'' =
    ''2dd52f8bf2e1100848e243ff1cdf70a8cb9f5a58575eae72195df3cef4343a39''\<close>
  by code_simp

lemma sha_n_k_v:
  \<open>calculateHash ''n:2dd52f8bf2e1100848e243ff1cdf70a8cb9f5a58575eae72195df3cef4343a39'' =
    ''b4b91d6989e706a70e49c09045f254c1564af231abadf61585c9c8646fe9623b''\<close>
  by code_simp

lemma sha_obj_k_w:
  \<open>calculateHash ''{"k":"w"}'' =
    ''8dfff1f77b20d9ceb9602532de26479f6af329732727fc5deaddd8e2bc37b38f''\<close>
  by code_simp

lemma sha_obj_n_k_w:
  \<open>calculateHash ''{"n":{"k":"w"}}'' =
    ''fd1201b287f9920980080ff3020c28e0d5b5324b30fadecb446acdbc169544ca''\<close>
  by code_simp

lemma sha_a_1:
  \<open>calculateHash ''a:6b86b273ff34fce19d6b804eff5a3f5747ada4eaa22f1d49c01e52ddb7875b4b'' =
    ''1589f3733c92b156bc2e8f23c28c1e1ca3a0f76d9d6efb882099b27c2a2f60cd''\<close>
  by code_simp

lemma sha_b_1:
  \<open>calculateHash ''b:6b86b273ff34fce19d6b804eff5a3f5747ada4eaa22f1d49c01e52ddb7875b4b'' =
    ''f567e7eae0c47cec0ebe0d79152dd15bb0494d9e8ce34d862c47faf7ef380246''\<close>
  by code_simp

lemma sha_obj_b1_a2:
  \<open>calculateHash ''{"b":1,"a":2}'' =
    ''a1d46c3cdb4e5795c8d637f80daeb578ebb1a9a65dc1ed5f11f51794c3c89f3a''\<close>
  by code_simp

lemma sha_b_1_a_2:
  \<open>calculateHash ''b:6b86b273ff34fce19d6b804eff5a3f5747ada4eaa22f1d49c01e52ddb7875b4ba:d4735e3a265e16eee03f59718b9b5d03019c07d8b6c51f90da3a666eec13ab35'' =
    ''2d9a6853daa0802ae9a6d76d65543fbb5771c4e94e31364e6efe34ecfab8d948''\<close>
  by code_simp

lemma sha_a_2_b_1:
  \<open>calculateHash ''a:d4735e3a265e16eee03f59718b9b5d03019c07d8b6c51f90da3a666eec13ab35b:6b86b273ff34fce19d6b804eff5a3f5747ada4eaa22f1d49c01e52ddb7875b4b'' =
    ''4affe3cb02840c85b6fefdc7c53e6ceff76c6d725dcbe34ab4a47797d47591cc''\<close>
  by code_simp

lemma sha_digest_1:
  \<open>calculateHash ''6b86b273ff34fce19d6b804eff5a3f5747ada4eaa22f1d49c01e52ddb7875b4b'' =
    ''e0bc614e4fd035a488619799853b075143deea596c477b8dc077e309c0fe42e9''\<close>
  by code_simp

lemma sha_b_digest_1:
  \<open>calculateHash ''b:e0bc614e4fd035a488619799853b075143deea596c477b8dc077e309c0fe42e9'' =
    ''f67e2e96790e3e5500630d8ad26e7bb686aa567db40a3223661a4b8c36aa9ac3''\<close>
  by code_simp

lemma sha_obj_b_arr:
  \<open>calculateHash ''{"b":[1]}'' =
    ''5ee78e6a8b730338ce40303b369384ae168c7597c1790d96292036ad197c51e8''\<close>
  by code_simp

lemma sha_arr_1:
  \<open>calculateHash ''[1]'' =
    ''080a9ed428559ef602668b4c00f114f1a11c3f6b02a435f0bdc154578e4d7f22''\<close>
  by code_simp

lemma sha_0_1:
  \<open>calculateHash ''0:6b86b273ff34fce19d6b804eff5a3f5747ada4eaa22f1d49c01e52ddb7875b4b'' =
    ''e8e7925ccd7ef90ddaa0e70a4b7e4beb33f8f6164321412d6b39aa23f7530680''\<close>
  by code_simp

lemma sha_b_0_1:
  \<open>calculateHash ''b:e8e7925ccd7ef90ddaa0e70a4b7e4beb33f8f6164321412d6b39aa23f7530680'' =
    ''4e9bbe158de3dbd46bf3a81525affdf59c60e2e6a6aa99aa8e5414e66195ed74''\<close>
  by code_simp

lemma sha_p_1:
  \<open>calculateHash ''p:6b86b273ff34fce19d6b804eff5a3f5747ada4eaa22f1d49c01e52ddb7875b4b'' =
    ''65b94de043fdfae4e9f900305abe8ee411557ebc2299f20f2955e7a879642c23''\<close>
  by code_simp

lemma sha_s_p_1:
  \<open>calculateHash ''s:65b94de043fdfae4e9f900305abe8ee411557ebc2299f20f2955e7a879642c23'' =
    ''11f0b5b5d7f52073b4f6d39767e914bf3b602e9a134adb2cac786b5df2362749''\<close>
  by code_simp

lemma sha_obj_s_typed:
  \<open>calculateHash ''{"s":{"type":"X","p":1}}'' =
    ''8ac32ff1e5592b9ec5bbc192571e9a66a912a2c35453c5d57fdb72893ae26219''\<close>
  by code_simp

lemma sha_obj_typed:
  \<open>calculateHash ''{"type":"X","p":1}'' =
    ''a067ee10d272780d6cbee667867adccaf0f95f90688fe465fb7f9145f5e25628''\<close>
  by code_simp

lemma sha_payload_p1:
  \<open>calculateHash ''{"type":"X","payload":"p1"}'' =
    ''6d205db6ca03cfb1387a4900b978a6288df3fd611360b895e38235b24c905b14''\<close>
  by code_simp

lemma sha_payload_p2:
  \<open>calculateHash ''{"type":"X","payload":"p2"}'' =
    ''9d1258bd66b29b6b1e39925789f5d75741174483cf7f1a38a3f590ff9b6ca914''\<close>
  by code_simp

lemma sha_s_payload_p1:
  \<open>calculateHash ''s:6d205db6ca03cfb1387a4900b978a6288df3fd611360b895e38235b24c905b14'' =
    ''c90d32f1e1183a4b3e737522038839ada41bc70f578f1f3c3f698851fda32262''\<close>
  by code_simp

lemma sha_obj_s_payload_p2:
  \<open>calculateHash ''{"s":{"type":"X","payload":"p2"}}'' =
    ''d0db5fc51a5c6a53bd56df8a7dbf095bba2b86bc579fccf0206c23bd36ede018''\<close>
  by code_simp

lemma sha_empty:
  \<open>calculateHash [] =
    ''e3b0c44298fc1c149afbf4c8996fb92427ae41e4649b934ca495991b7852b855''\<close>
  by code_simp

lemma sha_empty_empty:
  \<open>calculateHash ''e3b0c44298fc1c149afbf4c8996fb92427ae41e4649b934ca495991b7852b855e3b0c44298fc1c149afbf4c8996fb92427ae41e4649b934ca495991b7852b855'' =
    ''3b7546ed79e3e5a7907381b093c5a182cbf364c5dd0443dfa956c8cca271cc33''\<close>
  by code_simp

lemma sha_arr_arr_obj:
  \<open>calculateHash ''[[],{}]'' =
    ''5eed25f9aa1c68139fe47d7ea93769c16d4ddd46c01693921e0b40d9aaa39beb''\<close>
  by code_simp

lemma sha_arr_empty:
  \<open>calculateHash ''[]'' =
    ''4f53cda18c2baa0c0354bb5f9a3ecbe5ed12ab4d8e11ba873c2f11161202b945''\<close>
  by code_simp

lemma sha_obj_empty:
  \<open>calculateHash ''{}'' =
    ''44136fa355b3678a1146ad16f7e8649e94fb4fc21fe77e8310c060f61caaff8a''\<close>
  by code_simp

lemma sha_digest_1_2:
  \<open>calculateHash ''6b86b273ff34fce19d6b804eff5a3f5747ada4eaa22f1d49c01e52ddb7875b4bd4735e3a265e16eee03f59718b9b5d03019c07d8b6c51f90da3a666eec13ab35'' =
    ''33b675636da5dcc86ec847b38c08fa49ff1cace9749931e0a5d4dfdbdedd808a''\<close>
  by code_simp

lemma sha_arr_2_1:
  \<open>calculateHash ''[2,1]'' =
    ''af1a1fc110b6094c48582b0ef83553cb7908d7a4365424eef28e76ef6c88d630''\<close>
  by code_simp

lemma sha_7:
  \<open>calculateHash ''7'' =
    ''7902699be42c8a8e46fbbb4501726517e86b22c56a189f7625a6da49081b2451''\<close>
  by code_simp

lemma sha_tostring_1:
  \<open>calculateHash ''toString:6b86b273ff34fce19d6b804eff5a3f5747ada4eaa22f1d49c01e52ddb7875b4b'' =
    ''78bcfc94a065db1d7973d30a88d72f19b520050b3155fb6b7fe44763093077c5''\<close>
  by code_simp

lemma sha_obj_a_1:
  \<open>calculateHash ''{"a":1}'' =
    ''015abd7f5cc57a2dd94b7590f04ad8084273905ee33ec5cebeae62276a97f862''\<close>
  by code_simp

lemma sha_length_1:
  \<open>calculateHash ''length:6b86b273ff34fce19d6b804eff5a3f5747ada4eaa22f1d49c01e52ddb7875b4b'' =
    ''9f2b9a2f681a5880dc6f148f88076a6fa618fe1bbea220fd3e12199a61a50874''\<close>
  by code_simp

lemma sha_arr_7:
  \<open>calculateHash ''[7]'' =
    ''589ffd3acf522ae81192579f297589e93b0c41f748b224d1b4bb5c857a2f70cb''\<close>
  by code_simp

section \<open>Claims\<close>

text \<open>
  C6. Nested modification: after \<^verbatim>\<open>initialize({n:{k:"v"}})\<close>, the call
  \<^verbatim>\<open>update({n:{k:"w"}})\<close> returns and emits exactly one notification, a \<open>modified\<close>
  at the dot-joined path \<^verbatim>\<open>n.k\<close> (no leading separator); nothing is emitted at path
  \<^verbatim>\<open>n\<close>.
\<close>

theorem nested_modification:
  "\<exists>t. detectChanges (initialize (JObj [(''n'', JObj [(''k'', JStr ''v'')])]))
          (JObj [(''n'', JObj [(''k'', JStr ''w'')])])
        = Returned (t, [DifferenceEvent modified ''n.k''])"
  by (simp add: engine_eval sha_str_v sha_str_w sha_k_v sha_n_k_v sha_obj_k_w sha_obj_n_k_w)


text \<open>
  C9. When the stored tree has a child key and the snapshot is a primitive whose digest is
  not the root digest, the update throws at the key-membership test of the first child
  key instead of returning. On this path the throw comes before any event and before any
  change of the tree. (The same holds for \<^verbatim>\<open>null\<close>.)
\<close>

lemma processExistingKeys_primitive:
  "\<not> is_object d \<Longrightarrow> \<exists>k\<in>set keys. k \<noteq> ''__hash'' \<Longrightarrow>
     processExistingKeys keys t d p e = TypeError (t, e)"
  by (induction keys) (auto simp: js_in_def)

theorem update_primitive_throws:
  assumes "\<not> is_object jsonData"
    and "map_of hashTree ''__hash'' \<noteq> Some (HStr (calculateHash (stringify jsonData)))"
    and "\<exists>key\<in>set (map fst hashTree). key \<noteq> ''__hash''"
  shows "detectChanges hashTree jsonData = TypeError (hashTree, [])"
  using assms
  by (simp add: detectChanges_def findDifferencesAndUpdate.simps processExistingKeys_primitive)

theorem update_primitive_throws_witness:
  "\<not> is_object (JNum 5) \<and>
   map_of (initialize (JObj [(''a'', JNum 1)])) ''__hash''
     \<noteq> Some (HStr (calculateHash (stringify (JNum 5)))) \<and>
   (\<exists>key\<in>set (map fst (initialize (JObj [(''a'', JNum 1)]))). key \<noteq> ''__hash'') \<and>
   detectChanges (initialize (JObj [(''a'', JNum 1)])) (JNum 5)
     = TypeError (initialize (JObj [(''a'', JNum 1)]), [])"
  using update_primitive_throws [of "JNum 5" "initialize (JObj [(''a'', JNum 1)])"]
  by (simp add: engine_eval sha_1 sha_5 sha_a_1)

text \<open>
  C2. There is a value and a sequence of calls after which the stored tree has the
  content of the value and yet another root digest than the tree built from the value:
  after \<^verbatim>\<open>initialize({b:1})\<close> and \<^verbatim>\<open>update({b:1, a:2})\<close> the children are \<open>b\<close>, \<open>a\<close>
  (the old key first, the new one appended) and the digest is taken in that order, while
  \<^verbatim>\<open>buildHashTree({b:1, a:2})\<close> has the same two leaves in the order \<open>a\<close>, \<open>b\<close>.
\<close>

theorem incremental_digest_differs_from_built:
  "detectChanges (initialize (JObj [(''b'', JNum 1)])) (JObj [(''b'', JNum 1), (''a'', JNum 2)])
     = Returned
         ([(''__hash'', HStr ''2d9a6853daa0802ae9a6d76d65543fbb5771c4e94e31364e6efe34ecfab8d948''),
           (''b'', HNode [(''__hash'', HStr (calculateHash ''1''))]),
           (''a'', HNode [(''__hash'', HStr (calculateHash ''2''))])],
          [DifferenceEvent added ''a'']) \<and>
   buildHashTree (JObj [(''b'', JNum 1), (''a'', JNum 2)])
     = [(''__hash'', HStr ''4affe3cb02840c85b6fefdc7c53e6ceff76c6d725dcbe34ab4a47797d47591cc''),
        (''a'', HNode [(''__hash'', HStr (calculateHash ''2''))]),
        (''b'', HNode [(''__hash'', HStr (calculateHash ''1''))])] \<and>
   map_of (fst (state_of (detectChanges (initialize (JObj [(''b'', JNum 1)]))
                            (JObj [(''b'', JNum 1), (''a'', JNum 2)])))) ''__hash''
     \<noteq> map_of (buildHashTree (JObj [(''b'', JNum 1), (''a'', JNum 2)])) ''__hash''"
  by (simp add: engine_eval sha_1 sha_2 sha_b_1 sha_obj_b1_a2 sha_b_1_a_2 sha_a_2_b_1)


text \<open>
  C1. The claim: a subtree whose serialised form is the same as at the previous call
  passes the check \<^verbatim>\<open>hashTree.__hash === calculateHash(JSON.stringify(jsonData))\<close>, so
  the update returns from it at once. The code at \<^verbatim>\<open>initialize({b:[1]})\<close> followed by
  \<^verbatim>\<open>update({b:[1]})\<close>: the stored root digest is a digest of \<^verbatim>\<open>key:digest\<close> pairs,
  not of the serialised value, so the check fails; the update walks into \<open>b\<close>, where the
  check fails again, and although it emits nothing it rewrites the digest of \<open>b\<close> from
  the digest of the joined child digests to the digest of \<^verbatim>\<open>0:digest\<close>.
\<close>

theorem identical_subtree_not_pruned:
  "map_of (initialize (JObj [(''b'', JArr [JNum 1])])) ''__hash''
     \<noteq> Some (HStr (calculateHash (stringify (JObj [(''b'', JArr [JNum 1])])))) \<and>
   snd (state_of (detectChanges (initialize (JObj [(''b'', JArr [JNum 1])]))
                   (JObj [(''b'', JArr [JNum 1])]))) = [] \<and>
   map_of (initialize (JObj [(''b'', JArr [JNum 1])])) ''b''
     = Some (HNode [(''0'', HNode [(''__hash'', HStr (calculateHash ''1''))]),
                    (''__hash'', HStr (calculateHash (calculateHash ''1'')))]) \<and>
   map_of (fst (state_of (detectChanges (initialize (JObj [(''b'', JArr [JNum 1])]))
                   (JObj [(''b'', JArr [JNum 1])])))) ''b''
     = Some (HNode [(''0'', HNode [(''__hash'', HStr (calculateHash ''1''))]),
                    (''__hash'', HStr (calculateHash (''0:'' @ calculateHash ''1'')))])"
  by (simp add: engine_eval sha_1 sha_digest_1 sha_b_digest_1 sha_obj_b_arr sha_arr_1 sha_0_1)

text \<open>
  C3. The claim: when the new value of an existing key is an object with a truthy
  \<^verbatim>\<open>type\<close> and its digest differs from the stored one, the update emits one
  \<open>modified\<close> at the key's path and replaces the child by a fresh leaf, a node with the
  new digest and no children. The example of the claim behaves so:
\<close>

lemma opaque_leaf_example:
  "\<exists>t. detectChanges
          (initialize (JObj [(''s'', JObj [(''type'', JStr ''X''), (''payload'', JStr ''p1'')])]))
          (JObj [(''s'', JObj [(''type'', JStr ''X''), (''payload'', JStr ''p2'')])])
        = Returned (t, [DifferenceEvent modified ''s''])"
  by (simp add: engine_eval sha_payload_p1 sha_payload_p2 sha_s_payload_p1 sha_obj_s_payload_p2)

text \<open>
  C3, the code where the stored child has children: after \<^verbatim>\<open>initialize({s:{p:1}})\<close>,
  \<^verbatim>\<open>update({s:{type:"X", p:1}})\<close> emits the one \<open>modified\<close> at \<open>s\<close> and stores the new
  digest, but it assigns the \<^verbatim>\<open>__hash\<close> property of the old child object, which keeps
  its child \<open>p\<close>. (The JavaScript sibling of this file assigns a new object
  \<^verbatim>\<open>{ __hash: newPrimitiveHash }\<close> instead.)
\<close>

theorem opaque_child_keeps_children:
  "snd (state_of (detectChanges (initialize (JObj [(''s'', JObj [(''p'', JNum 1)])]))
          (JObj [(''s'', JObj [(''type'', JStr ''X''), (''p'', JNum 1)])])))
     = [DifferenceEvent modified ''s''] \<and>
   map_of (fst (state_of (detectChanges (initialize (JObj [(''s'', JObj [(''p'', JNum 1)])]))
          (JObj [(''s'', JObj [(''type'', JStr ''X''), (''p'', JNum 1)])])))) ''s''
     = Some (HNode
         [(''__hash'', HStr (calculateHash (stringify (JObj [(''type'', JStr ''X''), (''p'', JNum 1)])))),
          (''p'', HNode [(''__hash'', HStr (calculateHash ''1''))])])"
  by (simp add: engine_eval sha_1 sha_p_1 sha_s_p_1 sha_obj_s_typed sha_obj_typed)

text \<open>
  C4. The claim: the second of two successive calls \<^verbatim>\<open>update(v)\<close> emits nothing and
  leaves the root digest as the first call left it. The code on a new engine with
  \<^verbatim>\<open>v = {b:[1]}\<close>: the first call adds \<open>b\<close> as a built subtree, whose array digest is
  the digest of the joined child digests; the second call emits nothing, but walks into
  \<open>b\<close>, stores there the digest of \<^verbatim>\<open>0:digest\<close>, and so changes the root digest.
\<close>

theorem second_update_moves_root_digest:
  "detectChanges newEngine (JObj [(''b'', JArr [JNum 1])])
     = Returned
         ([(''__hash'', HStr ''f67e2e96790e3e5500630d8ad26e7bb686aa567db40a3223661a4b8c36aa9ac3''),
           (''b'', HNode [(''0'', HNode [(''__hash'', HStr (calculateHash ''1''))]),
                          (''__hash'', HStr (calculateHash (calculateHash ''1'')))])],
          [DifferenceEvent added ''b'']) \<and>
   detectChanges
       [(''__hash'', HStr ''f67e2e96790e3e5500630d8ad26e7bb686aa567db40a3223661a4b8c36aa9ac3''),
        (''b'', HNode [(''0'', HNode [(''__hash'', HStr (calculateHash ''1''))]),
                       (''__hash'', HStr (calculateHash (calculateHash ''1'')))])]
       (JObj [(''b'', JArr [JNum 1])])
     = Returned
         ([(''__hash'', HStr ''4e9bbe158de3dbd46bf3a81525affdf59c60e2e6a6aa99aa8e5414e66195ed74''),
           (''b'', HNode [(''0'', HNode [(''__hash'', HStr (calculateHash ''1''))]),
                          (''__hash'', HStr (calculateHash (''0:'' @ calculateHash ''1'')))])],
          [])"
  by (simp add: engine_eval sha_1 sha_digest_1 sha_b_digest_1 sha_obj_b_arr sha_arr_1 sha_0_1 sha_b_0_1)


section \<open>Property lists: lookups after assignments\<close>

lemma map_of_insert_prop:
  "map_of ps k = None \<Longrightarrow> map_of (insert_prop k v ps) k' = (if k' = k then Some v else map_of ps k')"
  by (induction ps) (auto split: option.splits if_splits)

lemma map_of_replace_other:
  "k' \<noteq> k \<Longrightarrow> map_of (map (\<lambda>p. if fst p = k then (k, v) else p) ps) k' = map_of ps k'"
  by (induction ps) auto

lemma map_of_replace_same:
  "map_of ps k \<noteq> None \<Longrightarrow> map_of (map (\<lambda>p. if fst p = k then (k, v) else p) ps) k = Some v"
  by (induction ps) (auto split: if_splits)

lemma map_of_set_prop:
  "map_of (set_prop k v ps) k' = (if k' = k then Some v else map_of ps k')"
  by (simp add: set_prop_def map_of_insert_prop map_of_replace_other map_of_replace_same)

lemma fst_in_keys: "(a, b) \<in> set kvs \<Longrightarrow> a \<in> fst ` set kvs"
  by force

lemma buildHashTree_primitive:
  "\<not> is_object v \<Longrightarrow> buildHashTree v = [(''__hash'', HStr (calculateHash (stringify v)))]"
  by (simp add: buildHashTree.simps)


text \<open>
  C10 (counterexample). On a new engine the snapshot \<^verbatim>\<open>{"__hash": 1}\<close> is a non-empty
  plain object, and the update returns without any \<open>added\<close> event: the test
  \<^verbatim>\<open>key in hashTree\<close> finds the digest property of the placeholder root.
\<close>

theorem fresh_engine_reserved_key_not_added:
  "\<exists>t. detectChanges newEngine (JObj [(''__hash'', JNum 1)]) = Returned (t, [])"
  by (simp add: engine_eval)

lemma has_property_set_prop:
  "has_property k (set_prop k' v t) = (k = k' \<or> has_property k t)"
  by (auto simp: has_property_def map_of_set_prop)

lemma processAddedKeys_fresh:
  "distinct (map fst kvs) \<Longrightarrow> \<forall>p\<in>set kvs. js_get d (fst p) = Some (snd p) \<Longrightarrow>
   processAddedKeys (map fst kvs) t d path evs =
     (assign t (map (\<lambda>p. (fst p, HNode (buildHashTree (snd p))))
                  (filter (\<lambda>p. \<not> has_property (fst p) t) kvs)),
      evs @ map (\<lambda>p. DifferenceEvent added (currentPath path (fst p)))
              (filter (\<lambda>p. \<not> has_property (fst p) t) kvs))"
proof (induction kvs arbitrary: t evs)
  case Nil
  then show ?case by (simp add: assign_def)
next
  case (Cons kv kvs)
  have d: "distinct (map fst kvs)" and g: "\<forall>p\<in>set kvs. js_get d (fst p) = Some (snd p)"
    and kv: "js_get d (fst kv) = Some (snd kv)"
    using Cons.prems by simp_all
  show ?case
  proof (cases "has_property (fst kv) t")
    case True
    with Cons.IH [OF d g, of t evs] show ?thesis by simp
  next
    case False
    let ?t = "set_prop (fst kv) (HNode (buildHashTree (snd kv))) t"
    have same: "filter (\<lambda>p. \<not> has_property (fst p) (set_prop (fst kv) v t)) kvs
        = filter (\<lambda>p. \<not> has_property (fst p) t) kvs" for v
      using Cons.prems(1) by (intro filter_cong) (auto simp: has_property_set_prop dest: fst_in_keys)
    from Cons.IH [OF d g, of ?t "evs @ [DifferenceEvent added (currentPath path (fst kv))]"] False kv
    show ?thesis
      by (cases "is_object (snd kv)") (simp_all add: same assign_def buildHashTree_primitive)
  qed
qed

lemma js_get_distinct:
  "distinct (map fst kvs) \<Longrightarrow> p \<in> set kvs \<Longrightarrow> js_get (JObj kvs) (fst p) = Some (snd p)"
  by (simp add: js_get_obj)

text \<open>
  C10 (amended). On a new engine the update with a plain-object snapshot returns, whatever
  the keys. It emits one \<open>added\<close> event, with the key as path and in enumeration order,
  for every top-level key that the placeholder root does not have already, that is, for
  every key other than \<^verbatim>\<open>__hash\<close> and the names inherited from \<^verbatim>\<open>Object.prototype\<close>
  (\<^verbatim>\<open>toString\<close>, \<^verbatim>\<open>constructor\<close>, \<^verbatim>\<open>__proto__\<close>, ...), and for no other key. The root
  it returns is the placeholder with a built subtree assigned under each of these keys,
  and with the digest of the \<^verbatim>\<open>key:digest\<close> pairs of these children stored last.
\<close>

theorem fresh_engine_update:
  assumes "distinct (map fst kvs)"
  shows "detectChanges newEngine (JObj kvs) =
     Returned
       (set_prop ''__hash''
          (HStr (entriesHash (assign newEngine (map (\<lambda>p. (fst p, HNode (buildHashTree (snd p))))
             (filter (\<lambda>p. fst p \<noteq> ''__hash'' \<and> fst p \<notin> set object_prototype_names) kvs)))))
          (assign newEngine (map (\<lambda>p. (fst p, HNode (buildHashTree (snd p))))
             (filter (\<lambda>p. fst p \<noteq> ''__hash'' \<and> fst p \<notin> set object_prototype_names) kvs))),
        map (\<lambda>p. DifferenceEvent added (fst p))
          (filter (\<lambda>p. fst p \<noteq> ''__hash'' \<and> fst p \<notin> set object_prototype_names) kvs))"
proof -
  have get: "\<forall>p\<in>set kvs. js_get (JObj kvs) (fst p) = Some (snd p)"
    using assms by (auto simp: js_get_distinct)
  have new: "(\<lambda>p :: string \<times> json. \<not> has_property (fst p) newEngine)
      = (\<lambda>p. fst p \<noteq> ''__hash'' \<and> fst p \<notin> set object_prototype_names)"
    by (auto simp: has_property_def newEngine_def)
  have "processAddedKeys (map fst kvs) newEngine (JObj kvs) [] [] =
     (assign newEngine (map (\<lambda>p. (fst p, HNode (buildHashTree (snd p))))
         (filter (\<lambda>p. fst p \<noteq> ''__hash'' \<and> fst p \<notin> set object_prototype_names) kvs)),
      map (\<lambda>p. DifferenceEvent added (fst p))
         (filter (\<lambda>p. fst p \<noteq> ''__hash'' \<and> fst p \<notin> set object_prototype_names) kvs))"
    using processAddedKeys_fresh [OF assms get, of newEngine "[]" "[]"]
    by (simp add: new currentPath_def)
  then show ?thesis
    by (simp add: detectChanges_def findDifferencesAndUpdate.simps newEngine_def)
qed

theorem fresh_engine_update_witness:
  "distinct (map fst [(''b'', JNum 1), (''toString'', JNum 2), (''a'', JArr [])]) \<and>
   detectChanges newEngine (JObj [(''b'', JNum 1), (''toString'', JNum 2), (''a'', JArr [])]) =
     Returned
       ([(''__hash'', HStr (calculateHash (''b:'' @ calculateHash ''1'' @ ''a:'' @ calculateHash []))),
         (''b'', HNode [(''__hash'', HStr (calculateHash ''1''))]),
         (''a'', HNode [(''__hash'', HStr (calculateHash []))])],
        [DifferenceEvent added ''b'', DifferenceEvent added ''a''])"
  using fresh_engine_update [of "[(''b'', JNum 1), (''toString'', JNum 2), (''a'', JArr [])]"]
  by (simp add: engine_eval)


section \<open>Where the digest is kept\<close>

lemma digest_in_place_children_iff:
  "digest_in_place_children ps \<longleftrightarrow> (\<forall>p\<in>set ps. fst p \<noteq> ''__hash'' \<longrightarrow> digest_in_place (snd p))"
  by (induction ps) auto

lemma digest_in_place_node_iff:
  "digest_in_place (HNode t) \<longleftrightarrow>
     (\<exists>d. map_of t ''__hash'' = Some (HStr d)) \<and>
     (\<forall>p\<in>set t. fst p \<noteq> ''__hash'' \<longrightarrow> digest_in_place (snd p))"
  by (auto simp: digest_in_place_children_iff split: option.splits hval.splits)

declare digest_in_place.simps(2) [simp del]

lemma digest_in_placeI:
  assumes "map_of t ''__hash'' = Some (HStr d)"
    and "\<And>p. p \<in> set t \<Longrightarrow> fst p \<noteq> ''__hash'' \<Longrightarrow> digest_in_place (snd p)"
  shows "digest_in_place (HNode t)"
  unfolding digest_in_place_node_iff using assms by blast

lemma digest_in_place_digestD:
  "digest_in_place (HNode t) \<Longrightarrow> \<exists>d. map_of t ''__hash'' = Some (HStr d)"
  unfolding digest_in_place_node_iff by blast

lemma digest_in_place_childD:
  "digest_in_place (HNode t) \<Longrightarrow> (k, c) \<in> set t \<Longrightarrow> k \<noteq> ''__hash'' \<Longrightarrow> digest_in_place c"
  unfolding digest_in_place_node_iff by force


lemma no_reserved_key_elems_iff: "no_reserved_key_elems xs \<longleftrightarrow> (\<forall>x\<in>set xs. no_reserved_key x)"
  by (induction xs) auto

lemma no_reserved_key_members_iff:
  "no_reserved_key_members kvs \<longleftrightarrow> (\<forall>p\<in>set kvs. fst p \<noteq> ''__hash'' \<and> no_reserved_key (snd p))"
  by (induction kvs) auto

lemma set_insert_prop: "set (insert_prop k v ps) = insert (k, v) (set ps)"
  by (induction ps) (auto split: option.splits)

lemma set_set_prop: "set (set_prop k v ps) \<subseteq> insert (k, v) (set ps)"
  by (auto simp: set_prop_def set_insert_prop split: if_splits)

lemma set_assign: "set (assign t src) \<subseteq> set t \<union> set src"
proof (induction src arbitrary: t)
  case Nil
  then show ?case by (simp add: assign_def)
next
  case (Cons p src)
  have "set (assign (set_prop (fst p) (snd p) t) src) \<subseteq> set (set_prop (fst p) (snd p) t) \<union> set src"
    using Cons.IH by simp
  moreover have "assign t (p # src) = assign (set_prop (fst p) (snd p) t) src"
    by (simp add: assign_def)
  ultimately show ?case using set_set_prop [of "fst p" "snd p" t] by auto
qed

lemma map_of_assign_other:
  "k \<notin> fst ` set src \<Longrightarrow> map_of (assign t src) k = map_of t k"
  by (induction src arbitrary: t) (auto simp: assign_def map_of_set_prop)


lemma digit_char_is_digit: "n < 10 \<Longrightarrow> is_digit (digit_char n)"
proof -
  assume "n < 10"
  then have "n \<in> {0, 1, 2, 3, 4, 5, 6, 7, 8, 9}"
    by auto
  then show ?thesis
    by (auto simp: digit_char_def is_digit_def)
qed

lemma string_of_nat_digits: "list_all is_digit (string_of_nat n)"
proof (induction n rule: string_of_nat.induct)
  case (1 n)
  show ?case
  proof (cases "n < 10")
    case True
    then show ?thesis by (simp add: string_of_nat.simps [of n] digit_char_is_digit)
  next
    case False
    with 1 show ?thesis by (simp add: string_of_nat.simps [of n] digit_char_is_digit)
  qed
qed

lemma string_of_nat_not_reserved: "string_of_nat n \<noteq> ''__hash''"
proof
  assume "string_of_nat n = ''__hash''"
  with string_of_nat_digits [of n] show False by (simp add: is_digit_def)
qed

lemma set_insort_str: "set (insort_str k xs) = insert k (set xs)"
  by (induction xs) auto

lemma set_sort_keys: "set (sort_keys ks) = set ks"
  by (induction ks) (auto simp: sort_keys_def set_insort_str)

lemma set_foldl_build:
  "p \<in> set (foldl (\<lambda>tree key. case g key of None \<Rightarrow> tree
        | Some v \<Rightarrow> if key = ''__proto__'' then tree else set_prop key (f v) tree) t ks)
     \<Longrightarrow> p \<in> set t \<or> (\<exists>k v. p = (k, f v) \<and> k \<in> set ks \<and> k \<noteq> ''__proto__'' \<and> g k = Some v)"
proof (induction ks arbitrary: t)
  case Nil
  then show ?case by simp
next
  case (Cons k ks)
  show ?case
  proof (cases "g k = None \<or> k = ''__proto__''")
    case True
    with Cons.prems have "p \<in> set (foldl (\<lambda>tree key. case g key of None \<Rightarrow> tree
        | Some v \<Rightarrow> if key = ''__proto__'' then tree else set_prop key (f v) tree) t ks)"
      by (auto split: option.splits)
    from Cons.IH [OF this] show ?thesis by auto
  next
    case False
    then obtain v where Some: "g k = Some v" and k: "k \<noteq> ''__proto__''" by auto
    with Cons.prems have "p \<in> set (foldl (\<lambda>tree key. case g key of None \<Rightarrow> tree
        | Some v \<Rightarrow> if key = ''__proto__'' then tree else set_prop key (f v) tree)
        (set_prop k (f v) t) ks)" by simp
    from Cons.IH [OF this] have "p \<in> set (set_prop k (f v) t)
        \<or> (\<exists>k' v'. p = (k', f v') \<and> k' \<in> set ks \<and> k' \<noteq> ''__proto__'' \<and> g k' = Some v')" .
    then show ?thesis
    proof
      assume "p \<in> set (set_prop k (f v) t)"
      with set_set_prop [of k "f v" t] have "p = (k, f v) \<or> p \<in> set t" by auto
      with Some k show ?thesis by auto
    next
      assume "\<exists>k' v'. p = (k', f v') \<and> k' \<in> set ks \<and> k' \<noteq> ''__proto__'' \<and> g k' = Some v'"
      then show ?thesis by auto
    qed
  qed
qed

lemma js_get_obj_member: "js_get (JObj kvs) k = Some v \<Longrightarrow> (k, v) \<in> set kvs"
  by (simp add: js_get_obj map_of_SomeD)

lemma digest_in_place_leaf: "digest_in_place (HNode [(''__hash'', HStr d)])"
  by (rule digest_in_placeI [of _ d]) simp_all

lemma digest_in_place_assign:
  assumes "''__hash'' \<notin> fst ` set src" and "\<forall>p\<in>set src. digest_in_place (snd p)"
  shows "digest_in_place (HNode (assign [(''__hash'', HStr d)] src))"
proof -
  have h1: "map_of (assign [(''__hash'', HStr d)] src) ''__hash'' = Some (HStr d)"
    using map_of_assign_other [OF assms(1)] by simp
  have h2: "\<forall>p\<in>set (assign [(''__hash'', HStr d)] src).
      fst p \<noteq> ''__hash'' \<longrightarrow> digest_in_place (snd p)"
  proof (intro ballI impI)
    fix p assume "p \<in> set (assign [(''__hash'', HStr d)] src)" and "fst p \<noteq> ''__hash''"
    with set_assign [of "[(''__hash'', HStr d)]" src] have "p \<in> set src" by auto
    with assms(2) show "digest_in_place (snd p)" by simp
  qed
  show ?thesis by (rule digest_in_placeI [OF h1]) (use h2 in blast)
qed

lemma buildHashTree_digest_in_place:
  "no_reserved_key v \<Longrightarrow> digest_in_place (HNode (buildHashTree v))"
proof (induction v rule: buildHashTree.induct)
  case (1 data)
  show ?case
  proof (cases data)
    case (JArr xs)
    let ?ch = "map (\<lambda>i. buildHashTree (xs ! i)) [0..<length xs]"
    let ?entries = "map (\<lambda>i. (string_of_nat i, HNode (?ch ! i))) [0..<length ?ch]"
    let ?c = "calculateHash (concat (map (\<lambda>h. join_text (hash_slot (HNode h))) ?ch))"
    have eq: "buildHashTree data = assign [(''__hash'', HStr ?c)] (assign [] ?entries)"
      using JArr by (subst buildHashTree.simps) (simp add: Let_def)
    have sub: "set (assign [] ?entries) \<subseteq> set ?entries"
      using set_assign [of "[]" ?entries] by simp
    have keys: "''__hash'' \<notin> fst ` set (assign [] ?entries)"
    proof
      assume "''__hash'' \<in> fst ` set (assign [] ?entries)"
      then obtain p where "p \<in> set (assign [] ?entries)" and p: "''__hash'' = fst p" by (rule imageE)
      with sub have "p \<in> set ?entries" by blast
      then obtain i where "fst p = string_of_nat i" by auto
      with p string_of_nat_not_reserved [of i] show False by simp
    qed
    have ih: "\<And>i. i < length xs \<Longrightarrow> digest_in_place (HNode (buildHashTree (xs ! i)))"
      using "1.IH"(5) [of xs] "1.prems" JArr by (simp add: no_reserved_key_elems_iff)
    have kids: "\<forall>p\<in>set ?entries. digest_in_place (snd p)"
      using ih by auto
    have kids': "\<forall>p\<in>set (assign [] ?entries). digest_in_place (snd p)"
      using sub kids by blast
    show ?thesis unfolding eq by (rule digest_in_place_assign [OF keys kids'])
  next
    case (JObj kvs)
    show ?thesis
    proof (cases "truthy (js_get data ''type'')")
      case True
      with JObj show ?thesis by (subst buildHashTree.simps) (simp add: digest_in_place_leaf)
    next
      case False
      let ?ch = "foldl (\<lambda>tree key. case js_get data key of None \<Rightarrow> tree
                    | Some v \<Rightarrow> if key = ''__proto__'' then tree
                                else set_prop key (HNode (buildHashTree v)) tree)
                  [] (sort_keys (map fst (own_props data)))"
      let ?c = "calculateHash (concat (map (\<lambda>p. fst p @ '':'' @ template_text (hash_slot (snd p))) ?ch))"
      have eq: "buildHashTree data = assign [(''__hash'', HStr ?c)] ?ch"
        using JObj False by (subst buildHashTree.simps) (simp add: Let_def)
      have sub: "\<And>p. p \<in> set ?ch \<Longrightarrow> \<exists>k v. p = (k, HNode (buildHashTree v)) \<and>
                    k \<in> set (sort_keys (map fst (own_props data))) \<and> k \<noteq> ''__proto__'' \<and>
                    js_get data k = Some v"
        using set_foldl_build [where g = "js_get data" and f = "\<lambda>v. HNode (buildHashTree v)" and t = "[]"]
        by simp
      have member: "\<And>k v. js_get data k = Some v \<Longrightarrow> k \<noteq> ''__hash'' \<and> no_reserved_key v"
        using "1.prems" JObj by (auto simp: no_reserved_key_members_iff dest!: js_get_obj_member)
      have ih: "\<And>k v. k \<in> set (sort_keys (map fst (own_props data))) \<Longrightarrow> js_get data k = Some v
                  \<Longrightarrow> k \<noteq> ''__proto__'' \<Longrightarrow> digest_in_place (HNode (buildHashTree v))"
        using "1.IH"(6) [OF _ JObj False] JObj member by simp
      have elem: "\<And>p. p \<in> set ?ch \<Longrightarrow> fst p \<noteq> ''__hash'' \<and> digest_in_place (snd p)"
      proof -
        fix p assume "p \<in> set ?ch"
        from sub [OF this] obtain k v where p: "p = (k, HNode (buildHashTree v))"
          and k: "k \<in> set (sort_keys (map fst (own_props data)))" and v: "js_get data k = Some v"
          and k': "k \<noteq> ''__proto__''"
          by blast
        from member [OF v] ih [OF k v k'] p
        show "fst p \<noteq> ''__hash'' \<and> digest_in_place (snd p)" by simp
      qed
      have keys: "''__hash'' \<notin> fst ` set ?ch"
      proof
        assume "''__hash'' \<in> fst ` set ?ch"
        then obtain p where "p \<in> set ?ch" and "''__hash'' = fst p" by (rule imageE)
        with elem [of p] show False by simp
      qed
      have kids: "\<forall>p\<in>set ?ch. digest_in_place (snd p)"
        using elem by simp
      show ?thesis unfolding eq by (rule digest_in_place_assign [OF keys kids])
    qed
  qed (simp_all add: buildHashTree_primitive digest_in_place_leaf)
qed

lemma map_of_delete_prop:
  "map_of (delete_prop k ps) k' = (if k' = k then None else map_of ps k')"
  by (induction ps) (auto simp: delete_prop_def)

lemma digest_in_place_delete:
  assumes "digest_in_place (HNode t)" and "key \<noteq> ''__hash''"
  shows "digest_in_place (HNode (delete_prop key t))"
proof -
  from digest_in_place_digestD [OF assms(1)] obtain d where d: "map_of t ''__hash'' = Some (HStr d)" ..
  show ?thesis
  proof (rule digest_in_placeI)
    show "map_of (delete_prop key t) ''__hash'' = Some (HStr d)"
      using d assms(2) by (simp add: map_of_delete_prop)
  next
    fix p assume "p \<in> set (delete_prop key t)" and k: "fst p \<noteq> ''__hash''"
    then have "(fst p, snd p) \<in> set t" by (simp add: delete_prop_def)
    from digest_in_place_childD [OF assms(1) this k] show "digest_in_place (snd p)" .
  qed
qed

lemma digest_in_place_set_child:
  assumes "digest_in_place (HNode t)" and "digest_in_place (HNode c)" and "key \<noteq> ''__hash''"
  shows "digest_in_place (HNode (set_prop key (HNode c) t))"
proof -
  from digest_in_place_digestD [OF assms(1)] obtain d where d: "map_of t ''__hash'' = Some (HStr d)" ..
  show ?thesis
  proof (rule digest_in_placeI)
    show "map_of (set_prop key (HNode c) t) ''__hash'' = Some (HStr d)"
      using d assms(3) by (simp add: map_of_set_prop)
  next
    fix p assume "p \<in> set (set_prop key (HNode c) t)" and k: "fst p \<noteq> ''__hash''"
    with set_set_prop [of key "HNode c" t] have "p = (key, HNode c) \<or> (fst p, snd p) \<in> set t" by auto
    then show "digest_in_place (snd p)"
    proof
      assume "p = (key, HNode c)"
      with assms(2) show ?thesis by simp
    next
      assume "(fst p, snd p) \<in> set t"
      from digest_in_place_childD [OF assms(1) this k] show ?thesis .
    qed
  qed
qed

lemma digest_in_place_set_digest:
  assumes "\<And>p. p \<in> set t \<Longrightarrow> fst p \<noteq> ''__hash'' \<Longrightarrow> digest_in_place (snd p)"
  shows "digest_in_place (HNode (set_prop ''__hash'' (HStr d) t))"
proof (rule digest_in_placeI)
  show "map_of (set_prop ''__hash'' (HStr d) t) ''__hash'' = Some (HStr d)"
    by (simp add: map_of_set_prop)
next
  fix p assume "p \<in> set (set_prop ''__hash'' (HStr d) t)" and k: "fst p \<noteq> ''__hash''"
  with set_set_prop [of "''__hash''" "HStr d" t] have "p \<in> set t" by auto
  from assms [OF this k] show "digest_in_place (snd p)" .
qed

lemma digest_in_place_child:
  assumes "digest_in_place (HNode t)" and "key \<noteq> ''__hash''"
  shows "digest_in_place (HNode (childNode (map_of t key)))"
proof (cases "map_of t key")
  case None
  then show ?thesis by (simp add: digest_in_place_leaf)
next
  case (Some h)
  show ?thesis
  proof (cases h)
    case (HStr s)
    with Some show ?thesis by (simp add: digest_in_place_leaf)
  next
    case (HNode c)
    with Some have "(key, HNode c) \<in> set t" by (simp add: map_of_SomeD)
    from digest_in_place_childD [OF assms(1) this assms(2)] Some HNode show ?thesis by simp
  qed
qed

lemma digest_in_place_compareLeaf:
  assumes "digest_in_place (HNode t)" and "key \<noteq> ''__hash''"
  shows "digest_in_place (HNode (fst (state_of (compareLeaf t h key cp evs))))"
proof (cases "map_of t key")
  case None
  with assms show ?thesis by (simp add: compareLeaf_def)
next
  case (Some x)
  show ?thesis
  proof (cases x)
    case (HStr s)
    with Some assms show ?thesis by (simp add: compareLeaf_def)
  next
    case (HNode c)
    with Some have "(key, HNode c) \<in> set t" by (simp add: map_of_SomeD)
    from digest_in_place_childD [OF assms(1) this assms(2)] have c: "digest_in_place (HNode c)" .
    have "digest_in_place (HNode (set_prop ''__hash'' (HStr h) c))"
    proof (rule digest_in_place_set_digest)
      fix p assume "p \<in> set c" and k: "fst p \<noteq> ''__hash''"
      then have "(fst p, snd p) \<in> set c" by simp
      from digest_in_place_childD [OF c this k] show "digest_in_place (snd p)" .
    qed
    from digest_in_place_set_child [OF assms(1) this assms(2)] Some HNode assms(1)
    show ?thesis by (simp add: compareLeaf_def)
  qed
qed

lemma indexed_key: "(k, v) \<in> set (indexed i xs) \<Longrightarrow> \<exists>j. k = string_of_nat j"
  by (induction xs arbitrary: i) auto

lemma no_reserved_key_js_get:
  assumes "no_reserved_key d" and "js_get d k = Some v"
  shows "k \<noteq> ''__hash'' \<and> no_reserved_key v"
proof (cases "map_of (own_props d) k")
  case None
  with assms(2) have "length_property d k = Some v" by (simp add: js_get_def)
  then show ?thesis by (cases d) (auto split: if_splits)
next
  case (Some v')
  with assms(2) have own: "map_of (own_props d) k = Some v" by (simp add: js_get_def)
  show ?thesis
  proof (cases d)
    case (JObj kvs)
    with own have "(k, v) \<in> set kvs" by (simp add: map_of_SomeD)
    with assms(1) JObj show ?thesis by (auto simp: no_reserved_key_members_iff)
  next
    case (JArr xs)
    from own JArr have m: "map_of (indexed 0 xs) k = Some v" by simp
    then have "v \<in> set xs" by (rule map_of_indexed_mem)
    moreover from m have "(k, v) \<in> set (indexed 0 xs)" by (rule map_of_SomeD)
    then have "\<exists>i. k = string_of_nat i" by (rule indexed_key)
    ultimately show ?thesis using assms(1) JArr string_of_nat_not_reserved
      by (auto simp: no_reserved_key_elems_iff)
  next
    case (JStr s)
    from own JStr have m: "map_of (indexed 0 (map (\<lambda>c. JStr [c]) s)) k = Some v"
      by simp
    then have "v \<in> set (map (\<lambda>c. JStr [c]) s)" by (rule map_of_indexed_mem)
    moreover from m have "(k, v) \<in> set (indexed 0 (map (\<lambda>c. JStr [c]) s))" by (rule map_of_SomeD)
    then have "\<exists>i. k = string_of_nat i" by (rule indexed_key)
    ultimately show ?thesis using string_of_nat_not_reserved by auto
  qed (use own in simp_all)
qed

lemma digest_in_place_processAddedKeys:
  assumes "digest_in_place (HNode t)" and "no_reserved_key d"
  shows "digest_in_place (HNode (fst (processAddedKeys keys t d path evs)))"
  using assms(1)
proof (induction keys arbitrary: t evs)
  case Nil
  then show ?case by simp
next
  case (Cons key keys)
  show ?case
  proof (cases "has_property key t")
    case True
    with Cons show ?thesis by simp
  next
    case False
    note True = this
    show ?thesis
    proof (cases "js_get d key")
      case None
      with True Cons show ?thesis by simp
    next
      case (Some v)
      from no_reserved_key_js_get [OF assms(2) Some]
      have k: "key \<noteq> ''__hash''" and v: "no_reserved_key v" by simp_all
      have "digest_in_place (HNode (buildHashTree v))"
        using v by (rule buildHashTree_digest_in_place)
      from digest_in_place_set_child [OF Cons.prems this k]
      have "digest_in_place (HNode (set_prop key (HNode (buildHashTree v)) t))" .
      from Cons.IH [OF this] True Some show ?thesis
        by (cases "is_object v") (simp_all add: buildHashTree_primitive)
    qed
  qed
qed

lemma state_of_put_child:
  "fst (state_of (put_child key t r)) = set_prop key (HNode (fst (state_of r))) t"
  by (cases r) auto

lemma update_digest_in_place:
  "digest_in_place (HNode hashTree) \<Longrightarrow> no_reserved_key jsonData \<Longrightarrow>
     digest_in_place (HNode (fst (state_of (findDifferencesAndUpdate hashTree jsonData path evs))))"
  "digest_in_place (HNode hashTree1) \<Longrightarrow> no_reserved_key jsonData1 \<Longrightarrow>
     digest_in_place (HNode (fst (state_of (processExistingKeys keys hashTree1 jsonData1 path1 evs1))))"
  "digest_in_place (HNode hashTree2) \<Longrightarrow> no_reserved_key jsonData2 \<Longrightarrow> key2 \<noteq> ''__hash'' \<Longrightarrow>
     digest_in_place (HNode (fst (state_of (processKeyValue hashTree2 jsonData2 key2 cpath2 evs2))))"
  "digest_in_place (HNode hashTree3) \<Longrightarrow> no_reserved_key jsonValue3 \<Longrightarrow> key3 \<noteq> ''__hash'' \<Longrightarrow>
     digest_in_place (HNode (fst (state_of (processObjectValue hashTree3 jsonValue3 key3 cpath3 evs3))))"
proof (induction hashTree jsonData path evs and keys hashTree1 jsonData1 path1 evs1
         and hashTree2 jsonData2 key2 cpath2 evs2 and hashTree3 jsonValue3 key3 cpath3 evs3
       rule: findDifferencesAndUpdate_processExistingKeys_processKeyValue_processObjectValue.induct)
  case (1 hashTree jsonData path evs)
  show ?case
  proof (cases "map_of hashTree ''__hash'' = Some (HStr (calculateHash (stringify jsonData)))")
    case True
    with "1.prems" show ?thesis by (simp add: findDifferencesAndUpdate.simps)
  next
    case False
    note ih = "1.IH" [OF False "1.prems"]
    show ?thesis
    proof (cases "processExistingKeys (map fst hashTree) hashTree jsonData path evs")
      case (TypeError s)
      with ih False show ?thesis by (simp add: findDifferencesAndUpdate.simps)
    next
      case (Returned s)
      obtain t1 evs1 where s: "s = (t1, evs1)" by (cases s)
      obtain t2 evs2 where a: "processAddedKeys (map fst (own_props jsonData)) t1 jsonData path evs1 = (t2, evs2)"
        by (cases "processAddedKeys (map fst (own_props jsonData)) t1 jsonData path evs1")
      from ih Returned s have "digest_in_place (HNode t1)" by simp
      from digest_in_place_processAddedKeys [OF this "1.prems"(2), of "map fst (own_props jsonData)" path evs1] a
      have t2: "digest_in_place (HNode t2)" by simp
      have "digest_in_place (HNode (set_prop ''__hash'' (HStr (entriesHash t2)) t2))"
      proof (rule digest_in_place_set_digest)
        fix p assume "p \<in> set t2" and k: "fst p \<noteq> ''__hash''"
        then have "(fst p, snd p) \<in> set t2" by simp
        from digest_in_place_childD [OF t2 this k] show "digest_in_place (snd p)" .
      qed
      with False Returned s a show ?thesis by (simp add: findDifferencesAndUpdate.simps)
    qed
  qed
next
  case (2 hashTree jsonData path evs)
  then show ?case by simp
next
  case (3 key keys hashTree jsonData path evs)
  show ?case
  proof (cases "key = ''__hash''")
    case True
    with "3.IH"(1) [OF True "3.prems"] show ?thesis by simp
  next
    case False
    show ?thesis
    proof (cases "js_in key jsonData")
      case None
      with False "3.prems" show ?thesis by simp
    next
      case (Some b)
      show ?thesis
      proof (cases b)
        case True
        then have bt: "b = True" by simp
        note r = "3.IH"(2) [OF False Some bt "3.prems" False]
        show ?thesis
        proof (cases "processKeyValue hashTree jsonData key (currentPath path key) evs")
          case (TypeError s)
          with r False Some bt show ?thesis by simp
        next
          case (Returned s)
          obtain t1 evs1 where s: "s = (t1, evs1)" by (cases s)
          from r Returned s have "digest_in_place (HNode t1)" by simp
          from "3.IH"(3) [OF False Some bt Returned s [symmetric] this "3.prems"(2)]
          show ?thesis using False Some bt Returned s by simp
        qed
      next
        case nb: False
        then have bf: "b = False" by simp
        from digest_in_place_delete [OF "3.prems"(1) False]
        have "digest_in_place (HNode (delete_prop key hashTree))" .
        from "3.IH"(4) [OF False Some bf this "3.prems"(2)]
        show ?thesis using False Some bf by simp
      qed
    qed
  qed
next
  case (4 hashTree jsonData key cpath evs)
  show ?case
  proof (cases "js_get jsonData key")
    case None
    with "4.prems" show ?thesis by simp
  next
    case (Some v)
    from no_reserved_key_js_get [OF "4.prems"(2) Some] have v: "no_reserved_key v" by simp
    show ?thesis
    proof (cases "is_object v")
      case True
      from "4.IH" [OF Some True "4.prems"(1) v "4.prems"(3)] Some True show ?thesis by simp
    next
      case False
      with Some digest_in_place_compareLeaf [OF "4.prems"(1) "4.prems"(3)]
      show ?thesis by (simp add: processPrimitiveValue_def)
    qed
  qed
next
  case (5 hashTree jsonValue key cpath evs)
  show ?case
  proof (cases "truthy (js_get jsonValue ''type'')")
    case True
    with digest_in_place_compareLeaf [OF "5.prems"(1) "5.prems"(3)] show ?thesis by simp
  next
    case False
    from digest_in_place_child [OF "5.prems"(1) "5.prems"(3)]
    have "digest_in_place (HNode (childNode (map_of hashTree key)))" .
    from "5.IH" [OF False this "5.prems"(2)]
    have "digest_in_place (HNode (fst (state_of
        (findDifferencesAndUpdate (childNode (map_of hashTree key)) jsonValue cpath evs))))" .
    from digest_in_place_set_child [OF "5.prems"(1) this "5.prems"(3)] False
    show ?thesis by (simp add: state_of_put_child)
  qed
qed

text \<open>
  C5 (counterexample). The digest is a property of the node object like any child: for
  the value \<^verbatim>\<open>{"__hash": 1}\<close> the spread \<^verbatim>\<open>{ __hash: combinedHash, ...childHashes }\<close>
  puts the child built for the key \<^verbatim>\<open>__hash\<close> where the digest was.
\<close>

theorem digest_slot_overwritten:
  "map_of (buildHashTree (JObj [(''__hash'', JNum 1)])) ''__hash''
     = Some (HNode [(''__hash'', HStr (calculateHash ''1''))])"
  by (simp add: engine_eval)

text \<open>
  C5 (amended). For a value in which no object has a key \<^verbatim>\<open>__hash\<close>: in every node of
  the tree that \<^verbatim>\<open>initialize\<close> builds, the property \<^verbatim>\<open>__hash\<close> holds a digest string
  and every other property is a child node; and when the stored tree is of this kind,
  so is the tree that \<^verbatim>\<open>detectChanges\<close> leaves behind, whether it returns or throws.
\<close>

theorem digest_stays_in_place:
  assumes "no_reserved_key v"
  shows "digest_in_place (HNode (initialize v)) \<and>
         (digest_in_place (HNode t) \<longrightarrow>
            digest_in_place (HNode (fst (state_of (detectChanges t v)))))"
  using assms
  by (simp add: initialize_def detectChanges_def buildHashTree_digest_in_place
        update_digest_in_place(1))

theorem digest_stays_in_place_witness:
  "no_reserved_key (JObj [(''a'', JArr [JNum 1])]) \<and>
   digest_in_place (HNode newEngine) \<and>
   digest_in_place (HNode (initialize (JObj [(''a'', JArr [JNum 1])]))) \<and>
   digest_in_place (HNode (fst (state_of (detectChanges newEngine (JObj [(''a'', JArr [JNum 1])])))))"
  using digest_stays_in_place [of "JObj [(''a'', JArr [JNum 1])]" newEngine]
  by (simp add: newEngine_def digest_in_place_leaf)


section \<open>The order of the children that \<^verbatim>\<open>buildHashTree\<close> makes\<close>

lemma insert_prop_plain: "array_index k = None \<Longrightarrow> insert_prop k v ps = ps @ [(k, v)]"
  by (induction ps) auto

lemma set_prop_plain:
  "array_index k = None \<Longrightarrow> map_of ps k = None \<Longrightarrow> set_prop k v ps = ps @ [(k, v)]"
  by (simp add: set_prop_def insert_prop_plain)

lemma foldl_build_plain:
  "distinct ks \<Longrightarrow>
   \<forall>k\<in>set ks. array_index k = None \<and> k \<noteq> ''__proto__'' \<and> map_of t k = None \<and> g k = Some (val k) \<Longrightarrow>
   foldl (\<lambda>tree key. case g key of None \<Rightarrow> tree
            | Some v \<Rightarrow> if key = ''__proto__'' then tree else set_prop key (f v) tree) t ks
     = t @ map (\<lambda>k. (k, f (val k))) ks"
proof (induction ks arbitrary: t)
  case Nil
  then show ?case by simp
next
  case (Cons k ks)
  let ?t = "t @ [(k, f (val k))]"
  have step: "set_prop k (f (val k)) t = ?t"
    using Cons.prems by (simp add: set_prop_plain)
  have "distinct ks" using Cons.prems by simp
  moreover have "\<forall>k'\<in>set ks. array_index k' = None \<and> k' \<noteq> ''__proto__'' \<and> map_of ?t k' = None
      \<and> g k' = Some (val k')"
    using Cons.prems by (auto simp: map_add_def)
  ultimately have "foldl (\<lambda>tree key. case g key of None \<Rightarrow> tree
            | Some v \<Rightarrow> if key = ''__proto__'' then tree else set_prop key (f v) tree) ?t ks
     = ?t @ map (\<lambda>k. (k, f (val k))) ks"
    by (rule Cons.IH)
  with step Cons.prems show ?case by simp
qed

lemma assign_plain:
  "distinct (map fst src) \<Longrightarrow>
   \<forall>p\<in>set src. array_index (fst p) = None \<and> map_of t (fst p) = None \<Longrightarrow>
   assign t src = t @ src"
proof (induction src arbitrary: t)
  case Nil
  then show ?case by (simp add: assign_def)
next
  case (Cons p src)
  let ?t = "t @ [p]"
  have step: "set_prop (fst p) (snd p) t = ?t"
    using Cons.prems by (simp add: set_prop_plain)
  have "distinct (map fst src)" using Cons.prems by simp
  moreover have "\<forall>q\<in>set src. array_index (fst q) = None \<and> map_of ?t (fst q) = None"
    using Cons.prems by (auto simp: map_add_def dest: fst_in_keys)
  ultimately have "assign ?t src = ?t @ src" by (rule Cons.IH)
  moreover have "assign t (p # src) = assign (set_prop (fst p) (snd p) t) src"
    by (simp add: assign_def)
  ultimately show ?case using step by simp
qed

lemma distinct_insort_str: "distinct (insort_str k xs) \<longleftrightarrow> k \<notin> set xs \<and> distinct xs"
  by (induction xs) (auto simp: set_insort_str)

lemma distinct_sort_keys: "distinct ks \<Longrightarrow> distinct (sort_keys ks)"
proof (induction ks)
  case Nil
  then show ?case by (simp add: sort_keys_def)
next
  case (Cons k ks)
  then have "distinct (foldr insort_str ks [])" and "k \<notin> set (foldr insort_str ks [])"
    using set_sort_keys [of ks] by (simp_all add: sort_keys_def)
  then show ?case by (simp add: sort_keys_def distinct_insort_str)
qed

text \<open>
  \<open>sort_keys\<close> sorts: its result is ordered by \<open>str_le\<close>, and \<open>str_le\<close> is the
  lexicographic order of the lists of code units, as \<open>lexord\<close> defines it, or equality.
\<close>

lemma str_le_lexord:
  "str_le s t \<longleftrightarrow> s = t \<or> (s, t) \<in> lexord {(a, b). (of_char a :: nat) < of_char b}"
proof (induction s t rule: str_le.induct)
  case (1 t)
  show ?case by (cases t) auto
qed auto

lemma str_le_total: "str_le s t \<or> str_le t s"
  by (induction s t rule: str_le.induct) auto

lemma str_le_trans: "str_le s t \<Longrightarrow> str_le t u \<Longrightarrow> str_le s u"
proof (induction s t arbitrary: u rule: str_le.induct)
  case (1 t)
  then show ?case by simp
next
  case (2 a s)
  then show ?case by simp
next
  case (3 a s b t)
  then show ?case by (cases u) auto
qed

lemma sorted_insort_str: "sorted_wrt str_le xs \<Longrightarrow> sorted_wrt str_le (insort_str k xs)"
proof (induction xs)
  case Nil
  then show ?case by simp
next
  case (Cons x xs)
  show ?case
  proof (cases "str_le k x")
    case True
    moreover have "\<forall>y\<in>set xs. str_le k y"
      using True Cons.prems by (auto intro: str_le_trans)
    ultimately show ?thesis using Cons.prems by simp
  next
    case False
    then have "str_le x k" using str_le_total [of k x] by simp
    with False Cons show ?thesis by (auto simp: set_insort_str)
  qed
qed

lemma sorted_sort_keys: "sorted_wrt str_le (sort_keys ks)"
  by (induction ks) (simp_all add: sort_keys_def sorted_insort_str)

lemma sorted_distinct_lexord:
  "sorted_wrt str_le ks \<Longrightarrow> distinct ks \<Longrightarrow>
   sorted_wrt (\<lambda>s t. (s, t) \<in> lexord {(a, b). (of_char a :: nat) < of_char b}) ks"
  by (induction ks) (auto simp: str_le_lexord)

text \<open>
  C8 (counterexample). The sorted names are assigned one by one to an empty object, and
  an object enumerates array-index names first, in numeric order: for
  \<^verbatim>\<open>{"10": 1, "9": 2}\<close> the sorted names are \<open>10\<close>, \<open>9\<close>, the children of the built node
  (and the pairs under its digest) come as \<open>9\<close>, \<open>10\<close>.
\<close>

theorem build_order_not_lexicographic:
  "sort_keys (map fst (own_props (JObj [(''10'', JNum 1), (''9'', JNum 2)]))) = [''10'', ''9''] \<and>
   map fst (filter (\<lambda>p. fst p \<noteq> ''__hash'') (buildHashTree (JObj [(''10'', JNum 1), (''9'', JNum 2)])))
     = [''9'', ''10'']"
  by (simp add: engine_eval)

text \<open>
  The assignment of the own key \<^verbatim>\<open>__proto__\<close> makes no child: the node built from
  \<^verbatim>\<open>{"__proto__": 1, "a": 2}\<close> has the one child \<open>a\<close>, and its digest covers \<open>a\<close> only.
\<close>

lemma build_drops_prototype_key:
  "buildHashTree (JObj [(''__proto__'', JNum 1), (''a'', JNum 2)])
     = [(''__hash'', HStr (calculateHash (''a:'' @ calculateHash ''2''))),
        (''a'', HNode [(''__hash'', HStr (calculateHash ''2''))])]"
  by (simp add: engine_eval)

text \<open>
  C8 (amended). For every plain object (no truthy \<^verbatim>\<open>type\<close>) none of whose own property
  names is an array index, \<^verbatim>\<open>__hash\<close> or \<^verbatim>\<open>__proto__\<close>, \<^verbatim>\<open>buildHashTree\<close> yields the
  node whose children are the built subtrees of the properties, one per name, in the order
  of the sorted names, and whose digest is the hash of the concatenation of
  \<^verbatim>\<open>name:digest\<close> over the names in that order. The sorted names are the names of the
  object, each once, in strictly ascending lexicographic order of their code units.
\<close>

theorem build_plain_object:
  assumes "distinct (map fst kvs)"
    and "\<forall>k\<in>set (map fst kvs). array_index k = None \<and> k \<noteq> ''__hash'' \<and> k \<noteq> ''__proto__''"
    and "\<not> truthy (map_of kvs ''type'')"
  shows "buildHashTree (JObj kvs) =
       (''__hash'', HStr (calculateHash (concat (map
           (\<lambda>k. k @ '':'' @ template_text (hash_slot (HNode (buildHashTree (the (map_of kvs k))))))
           (sort_keys (map fst kvs)))))) #
       map (\<lambda>k. (k, HNode (buildHashTree (the (map_of kvs k))))) (sort_keys (map fst kvs))
     \<and> set (sort_keys (map fst kvs)) = set (map fst kvs)
     \<and> sorted_wrt (\<lambda>s t. (s, t) \<in> lexord {(a, b). (of_char a :: nat) < of_char b})
           (sort_keys (map fst kvs))"
proof -
  let ?ks = "sort_keys (map fst kvs)"
  let ?ch = "map (\<lambda>k. (k, HNode (buildHashTree (the (map_of kvs k))))) ?ks"
  have d: "distinct ?ks" using assms(1) by (rule distinct_sort_keys)
  have present: "\<forall>k\<in>set ?ks. array_index k = None \<and> k \<noteq> ''__proto__''
      \<and> map_of [] k = (None :: hval option)
      \<and> js_get (JObj kvs) k = Some (the (map_of kvs k))"
    using assms(2) by (auto simp: set_sort_keys js_get_obj map_of_eq_None_iff)
  have fold: "foldl (\<lambda>tree key. case js_get (JObj kvs) key of None \<Rightarrow> tree
                | Some v \<Rightarrow> if key = ''__proto__'' then tree
                            else set_prop key (HNode (buildHashTree v)) tree) [] ?ks = ?ch"
    using foldl_build_plain [OF d present, where f = "\<lambda>v. HNode (buildHashTree v)"] by simp
  have "distinct (map fst ?ch)" using d by (simp add: comp_def)
  moreover have "\<forall>p\<in>set ?ch. array_index (fst p) = None \<and> map_of [(''__hash'', HStr c)] (fst p) = None" for c
    using assms(2) by (auto simp: set_sort_keys)
  ultimately have asg: "assign [(''__hash'', HStr c)] ?ch = (''__hash'', HStr c) # ?ch" for c
    using assign_plain [of ?ch "[(''__hash'', HStr c)]"] by simp
  have "buildHashTree (JObj kvs) =
      assign [(''__hash'', HStr (calculateHash (concat (map
         (\<lambda>p. fst p @ '':'' @ template_text (hash_slot (snd p))) ?ch))))] ?ch"
    using assms(3) fold by (subst buildHashTree.simps) (simp add: Let_def js_get_obj)
  then have built: "buildHashTree (JObj kvs) =
       (''__hash'', HStr (calculateHash (concat (map
           (\<lambda>k. k @ '':'' @ template_text (hash_slot (HNode (buildHashTree (the (map_of kvs k))))))
           ?ks)))) # ?ch"
    by (simp add: asg comp_def)
  have sorted: "sorted_wrt (\<lambda>s t. (s, t) \<in> lexord {(a, b). (of_char a :: nat) < of_char b}) ?ks"
    using sorted_sort_keys d by (rule sorted_distinct_lexord)
  from built sorted show ?thesis by (simp add: set_sort_keys)
qed

theorem build_plain_object_witness:
  "distinct (map fst [(''b'', JNum 1), (''a'', JNum 2)]) \<and>
   array_index ''b'' = None \<and> ''b'' \<noteq> ''__hash'' \<and> ''b'' \<noteq> ''__proto__'' \<and>
   array_index ''a'' = None \<and> ''a'' \<noteq> ''__hash'' \<and> ''a'' \<noteq> ''__proto__'' \<and>
   \<not> truthy (map_of [(''b'', JNum 1), (''a'', JNum 2)] ''type'') \<and>
   buildHashTree (JObj [(''b'', JNum 1), (''a'', JNum 2)]) =
     [(''__hash'', HStr (calculateHash (''a:'' @ calculateHash ''2'' @ ''b:'' @ calculateHash ''1''))),
      (''a'', HNode [(''__hash'', HStr (calculateHash ''2''))]),
      (''b'', HNode [(''__hash'', HStr (calculateHash ''1''))])] \<and>
   sort_keys (map fst [(''b'', JNum 1), (''a'', JNum 2)]) = [''a'', ''b''] \<and>
   (''a'', ''b'') \<in> lexord {(a, b). (of_char a :: nat) < of_char b}"
  using build_plain_object [of "[(''b'', JNum 1), (''a'', JNum 2)]"]
  by (simp add: engine_eval)


section \<open>Arrays are compared by position\<close>

text \<open>
  The decimal numeral of an index is read back by \<open>dec_value\<close>, so distinct indices have
  distinct keys and every index below \<open>2^32 - 1\<close> is an array-index key.
\<close>

lemma string_of_nat_nonempty: "string_of_nat n \<noteq> []"
  by (subst string_of_nat.simps) simp

lemma dec_value_append: "dec_value acc (s @ t) = dec_value (dec_value acc s) t"
  by (induction s arbitrary: acc) auto

lemma digit_char_value: "n < 10 \<Longrightarrow> (of_char (digit_char n) :: nat) - 48 = n"
proof -
  assume "n < 10"
  then have "n \<in> {0, 1, 2, 3, 4, 5, 6, 7, 8, 9}"
    by auto
  then show ?thesis
    by (auto simp: digit_char_def)
qed

lemma digit_char_zero: "n < 10 \<Longrightarrow> digit_char n = CHR ''0'' \<Longrightarrow> n = 0"
proof -
  assume "n < 10" and z: "digit_char n = CHR ''0''"
  then have "n \<in> {0, 1, 2, 3, 4, 5, 6, 7, 8, 9}"
    by auto
  with z show ?thesis
    by (auto simp: digit_char_def)
qed

lemma dec_value_string_of_nat: "dec_value 0 (string_of_nat n) = n"
proof (induction n rule: string_of_nat.induct)
  case (1 n)
  show ?case
  proof (cases "n < 10")
    case True
    then show ?thesis by (simp add: string_of_nat.simps [of n] digit_char_value)
  next
    case False
    have "dec_value 0 (string_of_nat n)
        = dec_value (dec_value 0 (string_of_nat (n div 10))) [digit_char (n mod 10)]"
      using False by (simp add: string_of_nat.simps [of n] dec_value_append)
    also have "\<dots> = (n div 10) * 10 + n mod 10"
      using 1 False by (simp add: digit_char_value)
    finally show ?thesis by simp
  qed
qed

lemma string_of_nat_inj: "string_of_nat m = string_of_nat n \<Longrightarrow> m = n"
  by (metis dec_value_string_of_nat)

lemma hd_string_of_nat: "hd (string_of_nat n) = CHR ''0'' \<Longrightarrow> n = 0"
proof (induction n rule: string_of_nat.induct)
  case (1 n)
  show ?case
  proof (cases "n < 10")
    case True
    with "1.prems" show ?thesis by (simp add: string_of_nat.simps [of n] digit_char_zero)
  next
    case False
    with "1.prems" have "hd (string_of_nat (n div 10)) = CHR ''0''"
      by (simp add: string_of_nat.simps [of n] string_of_nat_nonempty)
    with "1.IH" False have "n div 10 = 0" by simp
    with False show ?thesis by simp
  qed
qed

lemma array_index_string_of_nat:
  "n < 4294967295 \<Longrightarrow> array_index (string_of_nat n) = Some n"
proof -
  assume n: "n < 4294967295"
  have "string_of_nat n = ''0'' \<or> hd (string_of_nat n) \<noteq> CHR ''0''"
  proof (cases "hd (string_of_nat n) = CHR ''0''")
    case True
    then have "n = 0" by (rule hd_string_of_nat)
    then show ?thesis by (simp add: string_of_nat.simps [of 0] digit_char_def)
  next
    case False
    then show ?thesis by simp
  qed
  with n show ?thesis
    by (simp add: array_index_def string_of_nat_nonempty string_of_nat_digits
          dec_value_string_of_nat)
qed

lemma map_of_indexed:
  "j < length xs \<Longrightarrow> map_of (indexed i xs) (string_of_nat (i + j)) = Some (xs ! j)"
proof (induction xs arbitrary: i j)
  case Nil
  then show ?case by simp
next
  case (Cons x xs)
  show ?case
  proof (cases j)
    case 0
    then show ?thesis by simp
  next
    case (Suc j')
    with Cons.prems have "j' < length xs" by simp
    from Cons.IH [OF this, of "Suc i"] Suc show ?thesis
      by (auto dest: string_of_nat_inj)
  qed
qed

text \<open>
  The node built from an array: the children under their index keys, in index order,
  and the digest after them, whatever the order in which the properties were assigned.
\<close>

lemma insert_prop_index:
  "array_index k = Some i \<Longrightarrow>
   \<forall>p\<in>set A. \<exists>j. array_index (fst p) = Some j \<and> j < i \<Longrightarrow>
   \<forall>p\<in>set N. array_index (fst p) = None \<Longrightarrow>
   insert_prop k v (A @ N) = A @ (k, v) # N"
proof (induction A)
  case Nil
  then show ?case by (cases N) auto
next
  case (Cons a A)
  then show ?case by auto
qed

lemma array_index_reserved: "array_index ''__hash'' = None"
  by (simp add: array_index_def is_digit_def)

lemma assign_indices:
  assumes "n \<le> 4294967295" and "\<forall>p\<in>set N. array_index (fst p) = None"
  shows "m \<le> n \<Longrightarrow>
     assign (map (\<lambda>i. (string_of_nat i, f i)) [0..<m] @ N) (map (\<lambda>i. (string_of_nat i, f i)) [m..<n])
       = map (\<lambda>i. (string_of_nat i, f i)) [0..<n] @ N"
proof (induction "n - m" arbitrary: m)
  case 0
  then show ?case by (simp add: assign_def)
next
  case (Suc d)
  let ?E = "\<lambda>i. (string_of_nat i, f i)"
  let ?t = "map ?E [0..<m] @ N"
  from Suc have mn: "m < n" by simp
  with assms(1) have idx: "array_index (string_of_nat m) = Some m"
    by (simp add: array_index_string_of_nat)
  have "string_of_nat m \<notin> fst ` set (map ?E [0..<m])"
    by (auto dest: string_of_nat_inj)
  moreover have "string_of_nat m \<notin> fst ` set N"
    using assms(2) idx by force
  ultimately have fresh: "map_of ?t (string_of_nat m) = None"
    by (simp add: map_of_eq_None_iff image_Un)
  have "\<forall>p\<in>set (map ?E [0..<m]). \<exists>j. array_index (fst p) = Some j \<and> j < m"
    using mn assms(1) by (auto simp: array_index_string_of_nat)
  from insert_prop_index [OF idx this assms(2)]
  have ins: "insert_prop (string_of_nat m) (f m) ?t = map ?E [0..<m] @ ?E m # N" .
  have step: "set_prop (string_of_nat m) (f m) ?t = map ?E [0..<Suc m] @ N"
    using fresh ins by (simp add: set_prop_def)
  have "assign ?t (map ?E [m..<n]) = assign (set_prop (string_of_nat m) (f m) ?t) (map ?E [Suc m..<n])"
    using mn by (simp add: assign_def upt_conv_Cons)
  also have "\<dots> = assign (map ?E [0..<Suc m] @ N) (map ?E [Suc m..<n])"
    using step by simp
  also have "\<dots> = map ?E [0..<n] @ N"
    using Suc.hyps(1) [of "Suc m"] Suc.hyps(2) mn by simp
  finally show ?case .
qed

lemma buildHashTree_array:
  assumes "length xs < 4294967295"
  shows "buildHashTree (JArr xs) =
     map (\<lambda>i. (string_of_nat i, HNode (buildHashTree (xs ! i)))) [0..<length xs] @
     [(''__hash'', HStr (calculateHash (concat (map
        (\<lambda>i. join_text (hash_slot (HNode (buildHashTree (xs ! i))))) [0..<length xs]))))]"
proof -
  let ?n = "length xs"
  let ?ch = "map (\<lambda>i. buildHashTree (xs ! i)) [0..<?n]"
  let ?f = "\<lambda>i. HNode (buildHashTree (xs ! i))"
  let ?E = "\<lambda>i. (string_of_nat i, ?f i)"
  let ?c = "calculateHash (concat (map (\<lambda>h. join_text (hash_slot (HNode h))) ?ch))"
  have entries: "map (\<lambda>i. (string_of_nat i, HNode (?ch ! i))) [0..<?n] = map ?E [0..<?n]"
    by (rule map_cong) simp_all
  have eq: "buildHashTree (JArr xs) = assign [(''__hash'', HStr ?c)] (assign [] (map ?E [0..<?n]))"
    by (subst buildHashTree.simps) (simp add: Let_def entries del: map_map)
  have n: "?n \<le> 4294967295" using assms by simp
  have a1: "assign [] (map ?E [0..<?n]) = map ?E [0..<?n]"
    using assign_indices [OF n, of "[]" 0 ?f] by simp
  have a2: "assign [(''__hash'', HStr ?c)] (map ?E [0..<?n]) = map ?E [0..<?n] @ [(''__hash'', HStr ?c)]"
    using assign_indices [OF n, of "[(''__hash'', HStr ?c)]" 0 ?f] by (simp add: array_index_reserved)
  show ?thesis unfolding eq a1 a2 by (simp add: comp_def)
qed

text \<open>The update of a node all of whose children are leaves, against an array of primitives.\<close>

lemma map_fst_indexed: "map fst (indexed i xs) = map string_of_nat [i..<i + length xs]"
proof (induction xs arbitrary: i)
  case Nil
  then show ?case by simp
next
  case (Cons x xs)
  have "[i..<i + length (x # xs)] = i # [Suc i..<Suc i + length xs]"
    by (subst upt_rec) simp
  with Cons.IH [of "Suc i"] show ?case by simp
qed

lemma processAddedKeys_present:
  "\<forall>k\<in>set ks. map_of t k \<noteq> None \<Longrightarrow> processAddedKeys ks t d path evs = (t, evs)"
  by (induction ks) (auto simp: has_property_def)

lemma map_of_leaves:
  "m < n \<Longrightarrow>
   map_of (map (\<lambda>i. (string_of_nat i, f i)) [0..<n] @ N) (string_of_nat m) = Some (f m)"
proof -
  assume "m < n"
  have "map_of (map (\<lambda>i. (string_of_nat i, f i)) [0..<n]) (string_of_nat m) = Some (f m)"
  proof (rule map_of_is_SomeI)
    show "distinct (map fst (map (\<lambda>i. (string_of_nat i, f i)) [0..<n]))"
      by (simp add: comp_def distinct_map inj_on_def) (metis string_of_nat_inj)
    show "(string_of_nat m, f m) \<in> set (map (\<lambda>i. (string_of_nat i, f i)) [0..<n])"
      using \<open>m < n\<close> by auto
  qed
  then show ?thesis by simp
qed

lemma reserved_not_numeral [simp]: "''__hash'' \<noteq> string_of_nat n"
  using string_of_nat_not_reserved [of n] by auto

lemma map_of_leaves_reserved:
  "map_of (map (\<lambda>i. (string_of_nat i, f i)) ns @ N) ''__hash'' = map_of N ''__hash''"
proof -
  have "map_of (map (\<lambda>i. (string_of_nat i, f i)) ns) ''__hash'' = None"
    by (auto simp: map_of_eq_None_iff)
  then show ?thesis by (simp add: map_add_def)
qed

lemma replace_leaf:
  "map (\<lambda>p. if fst p = string_of_nat m then (string_of_nat m, f m) else p)
       (map (\<lambda>i. (string_of_nat i, g i)) ns @ [(''__hash'', c)])
   = map (\<lambda>i. (string_of_nat i, if i = m then f m else g i)) ns @ [(''__hash'', c)]"
  using string_of_nat_not_reserved [of m] by (auto dest: string_of_nat_inj)

lemma compareLeaf_leaves:
  assumes "m < n"
  shows "compareLeaf (map (\<lambda>i. (string_of_nat i, HNode [(''__hash'', HStr (d i))])) [0..<n] @ [(''__hash'', c)])
            h (string_of_nat m) cpath evs
     = Returned (map (\<lambda>i. (string_of_nat i, HNode [(''__hash'', HStr (if i = m then h else d i))])) [0..<n]
                   @ [(''__hash'', c)],
                 evs @ (if d m \<noteq> h then [DifferenceEvent modified cpath] else []))"
proof -
  let ?T = "map (\<lambda>i. (string_of_nat i, HNode [(''__hash'', HStr (d i))])) [0..<n] @ [(''__hash'', c)]"
  have get: "map_of ?T (string_of_nat m) = Some (HNode [(''__hash'', HStr (d m))])"
    using assms by (rule map_of_leaves)
  show ?thesis
  proof (cases "d m = h")
    case True
    have "map (\<lambda>i. (string_of_nat i, HNode [(''__hash'', HStr (if i = m then h else d i))])) [0..<n]
        = map (\<lambda>i. (string_of_nat i, HNode [(''__hash'', HStr (d i))])) [0..<n]"
      using True by (intro map_cong) auto
    with True get show ?thesis by (simp add: compareLeaf_def)
  next
    case False
    have inner: "set_prop ''__hash'' (HStr h) [(''__hash'', HStr (d m))] = [(''__hash'', HStr h)]"
      by (simp add: set_prop_def)
    have "set_prop (string_of_nat m) (HNode [(''__hash'', HStr h)]) ?T
        = map (\<lambda>i. (string_of_nat i, if i = m then HNode [(''__hash'', HStr h)] else HNode [(''__hash'', HStr (d i))])) [0..<n]
            @ [(''__hash'', c)]"
      using get replace_leaf [of m "\<lambda>_. HNode [(''__hash'', HStr h)]" "\<lambda>i. HNode [(''__hash'', HStr (d i))]" "[0..<n]" c]
      by (simp add: set_prop_def)
    also have "\<dots> = map (\<lambda>i. (string_of_nat i, HNode [(''__hash'', HStr (if i = m then h else d i))])) [0..<n]
            @ [(''__hash'', c)]"
      by simp
    finally have outer: "set_prop (string_of_nat m) (HNode [(''__hash'', HStr h)]) ?T
        = map (\<lambda>i. (string_of_nat i, HNode [(''__hash'', HStr (if i = m then h else d i))])) [0..<n]
            @ [(''__hash'', c)]" .
    show ?thesis unfolding compareLeaf_def get using False by (simp add: inner outer)
  qed
qed

lemma processExistingKeys_leaves:
  assumes n: "n = length ys" "n < 4294967295"
    and prim: "\<forall>i<n. \<not> is_object (ys ! i)"
  shows "m \<le> n \<Longrightarrow>
    processExistingKeys (map string_of_nat [m..<n] @ [''__hash''])
      (map (\<lambda>i. (string_of_nat i, HNode [(''__hash'', HStr (d i))])) [0..<n] @ [(''__hash'', c)])
      (JArr ys) [] evs
    = Returned
       (map (\<lambda>i. (string_of_nat i,
                   HNode [(''__hash'', HStr (if m \<le> i then calculateHash (stringify (ys ! i)) else d i))])) [0..<n]
          @ [(''__hash'', c)],
        evs @ map (\<lambda>i. DifferenceEvent modified (string_of_nat i))
                (filter (\<lambda>i. d i \<noteq> calculateHash (stringify (ys ! i))) [m..<n]))"
proof (induction "n - m" arbitrary: m d evs)
  case 0
  then have "m = n" by simp
  have "map (\<lambda>i. (string_of_nat i,
                   HNode [(''__hash'', HStr (if n \<le> i then calculateHash (stringify (ys ! i)) else d i))])) [0..<n]
      = map (\<lambda>i. (string_of_nat i, HNode [(''__hash'', HStr (d i))])) [0..<n]"
    by (intro map_cong) auto
  with \<open>m = n\<close> show ?case by (simp add: findDifferencesAndUpdate.simps)
next
  case (Suc k)
  let ?h = "\<lambda>i. calculateHash (stringify (ys ! i))"
  let ?T = "\<lambda>d. map (\<lambda>i. (string_of_nat i, HNode [(''__hash'', HStr (d i))])) [0..<n] @ [(''__hash'', c)]"
  let ?d = "\<lambda>i. if i = m then ?h m else d i"
  let ?evs = "evs @ (if d m \<noteq> ?h m then [DifferenceEvent modified (string_of_nat m)] else [])"
  from Suc have mn: "m < n" by simp
  have get: "js_get (JArr ys) (string_of_nat m) = Some (ys ! m)"
    using mn n map_of_indexed [of m ys 0] by (simp add: js_get_def)
  have has: "js_in (string_of_nat m) (JArr ys) = Some True"
    using mn n map_of_indexed [of m ys 0] by (simp add: js_in_def)
  have np: "\<not> is_object (ys ! m)" using prim mn by simp
  have kv: "processKeyValue (?T d) (JArr ys) (string_of_nat m) (string_of_nat m) evs
      = Returned (?T ?d, ?evs)"
    using get np compareLeaf_leaves [OF mn, of d c "?h m" "string_of_nat m" evs]
    by (simp add: findDifferencesAndUpdate.simps processPrimitiveValue_def)
  have "processExistingKeys (map string_of_nat [m..<n] @ [''__hash'']) (?T d) (JArr ys) [] evs
      = processExistingKeys (map string_of_nat [Suc m..<n] @ [''__hash'']) (?T ?d) (JArr ys) [] ?evs"
    using mn has kv string_of_nat_not_reserved [of m]
    by (simp add: upt_conv_Cons [of m] currentPath_def)
  also have "\<dots> = Returned
       (?T (\<lambda>i. if Suc m \<le> i then ?h i else ?d i),
        ?evs @ map (\<lambda>i. DifferenceEvent modified (string_of_nat i))
                (filter (\<lambda>i. ?d i \<noteq> ?h i) [Suc m..<n]))"
    using Suc.hyps(1) [of "Suc m" ?d ?evs] Suc.hyps(2) mn by simp
  also have "(\<lambda>i. if Suc m \<le> i then ?h i else ?d i) = (\<lambda>i. if m \<le> i then ?h i else d i)"
  proof (rule ext)
    fix i show "(if Suc m \<le> i then ?h i else ?d i) = (if m \<le> i then ?h i else d i)"
      by (cases "i = m") auto
  qed
  also have "filter (\<lambda>i. ?d i \<noteq> ?h i) [Suc m..<n] = filter (\<lambda>i. d i \<noteq> ?h i) [Suc m..<n]"
    by (intro filter_cong) auto
  also have "?evs @ map (\<lambda>i. DifferenceEvent modified (string_of_nat i)) (filter (\<lambda>i. d i \<noteq> ?h i) [Suc m..<n])
     = evs @ map (\<lambda>i. DifferenceEvent modified (string_of_nat i)) (filter (\<lambda>i. d i \<noteq> ?h i) [m..<n])"
    using mn by (simp add: upt_conv_Cons)
  finally show ?case .
qed

lemma map_nth_list: "map (\<lambda>i. f (xs ! i)) [0..<length xs] = map f xs"
  by (rule nth_equalityI) simp_all


text \<open>
  C7 (counterexample). Reordering the elements of an array is not always observable:
  \<^verbatim>\<open>[{}, []]\<close> and \<^verbatim>\<open>[[], {}]\<close> differ at both positions, and the update from the
  one to the other emits no event. Both positions hold a structural node without children,
  the update descends into each, finds no key to compare, and only rewrites digests.
\<close>

theorem reordered_array_no_event:
  "detectChanges (initialize (JArr [JObj [], JArr []])) (JArr [JArr [], JObj []]) =
     Returned
       ([(''0'', HNode [(''__hash'', HStr (calculateHash []))]),
         (''1'', HNode [(''__hash'', HStr (calculateHash []))]),
         (''__hash'', HStr (calculateHash (''0:'' @ calculateHash [] @ ''1:'' @ calculateHash [])))],
        [])"
  by (simp add: engine_eval sha_empty sha_empty_empty sha_arr_arr_obj sha_arr_empty sha_obj_empty)


text \<open>
  C7 (amended). For two arrays of primitives (or \<^verbatim>\<open>null\<close>) of the same length, below
  \<open>2^32 - 1\<close>, such that the digest stored for the first is not the digest of the
  serialised second: the update from the first to the second returns, emits \<open>modified\<close>
  at exactly the indices whose elements have different digests, in ascending order, with
  the index as path, and leaves under every index the digest of the new element. The
  elements are matched by position only, so a reordering shows at every index whose
  element changed.
\<close>

theorem array_of_leaves_update:
  assumes len: "length ys = length xs" "length xs < 4294967295"
    and prim: "\<forall>x\<in>set xs. \<not> is_object x" "\<forall>y\<in>set ys. \<not> is_object y"
    and root: "calculateHash (concat (map (\<lambda>x. calculateHash (stringify x)) xs))
                 \<noteq> calculateHash (stringify (JArr ys))"
  shows "detectChanges (initialize (JArr xs)) (JArr ys) =
     Returned
       (map (\<lambda>i. (string_of_nat i, HNode [(''__hash'', HStr (calculateHash (stringify (ys ! i))))]))
            [0..<length xs]
        @ [(''__hash'', HStr (calculateHash (concat (map
              (\<lambda>i. string_of_nat i @ '':'' @ calculateHash (stringify (ys ! i))) [0..<length xs]))))],
        map (\<lambda>i. DifferenceEvent modified (string_of_nat i))
            (filter (\<lambda>i. calculateHash (stringify (xs ! i)) \<noteq> calculateHash (stringify (ys ! i)))
               [0..<length xs]))"
proof -
  let ?n = "length xs"
  let ?hx = "\<lambda>i. calculateHash (stringify (xs ! i))"
  let ?hy = "\<lambda>i. calculateHash (stringify (ys ! i))"
  let ?c = "HStr (calculateHash (concat (map (\<lambda>x. calculateHash (stringify x)) xs)))"
  let ?T = "\<lambda>d. map (\<lambda>i. (string_of_nat i, HNode [(''__hash'', HStr (d i))])) [0..<?n] @ [(''__hash'', ?c)]"
  let ?evs = "map (\<lambda>i. DifferenceEvent modified (string_of_nat i))
                (filter (\<lambda>i. ?hx i \<noteq> ?hy i) [0..<?n])"
  have leaf: "buildHashTree (xs ! i) = [(''__hash'', HStr (?hx i))]" if "i < ?n" for i
    using prim(1) that by (simp add: buildHashTree_primitive)
  have kids: "map (\<lambda>i. (string_of_nat i, HNode (buildHashTree (xs ! i)))) [0..<?n]
      = map (\<lambda>i. (string_of_nat i, HNode [(''__hash'', HStr (?hx i))])) [0..<?n]"
    by (rule map_cong) (simp_all add: leaf)
  have "map (\<lambda>i. join_text (hash_slot (HNode (buildHashTree (xs ! i))))) [0..<?n] = map ?hx [0..<?n]"
    by (rule map_cong) (simp_all add: leaf)
  also have "\<dots> = map (\<lambda>x. calculateHash (stringify x)) xs"
    by (rule map_nth_list)
  finally have digs: "map (\<lambda>i. join_text (hash_slot (HNode (buildHashTree (xs ! i))))) [0..<?n]
      = map (\<lambda>x. calculateHash (stringify x)) xs" .
  have built: "initialize (JArr xs) = ?T ?hx"
    unfolding initialize_def buildHashTree_array [OF len(2)] kids digs ..
  have stored: "map_of (?T ?hx) ''__hash'' = Some ?c"
    by (subst map_of_leaves_reserved) simp
  have keys: "map fst (?T ?hx) = map string_of_nat [0..<?n] @ [''__hash'']"
    by (simp add: comp_def)
  have prim': "\<forall>i<?n. \<not> is_object (ys ! i)"
    using prim(2) len(1) by simp
  have pek: "processExistingKeys (map fst (?T ?hx)) (?T ?hx) (JArr ys) [] [] = Returned (?T ?hy, ?evs)"
    unfolding keys
    using processExistingKeys_leaves [OF len(1) [symmetric] len(2) prim', of 0 ?hx ?c "[]"]
    by simp
  have "\<forall>k\<in>set (map fst (own_props (JArr ys))). map_of (?T ?hy) k \<noteq> None"
    using len(1) by (auto simp: map_fst_indexed map_of_leaves simp del: map_of_append)
  then have pak: "processAddedKeys (map fst (own_props (JArr ys))) (?T ?hy) (JArr ys) [] ?evs = (?T ?hy, ?evs)"
    by (rule processAddedKeys_present)
  have eh: "entriesHash (?T ?hy)
      = calculateHash (concat (map (\<lambda>i. string_of_nat i @ '':'' @ ?hy i) [0..<?n]))"
    by (simp add: entriesHash_def filter_map comp_def string_of_nat_not_reserved)
  have fin: "set_prop ''__hash'' v (?T ?hy)
      = map (\<lambda>i. (string_of_nat i, HNode [(''__hash'', HStr (?hy i))])) [0..<?n] @ [(''__hash'', v)]" for v
    by (simp add: set_prop_def string_of_nat_not_reserved)
  show ?thesis
    unfolding detectChanges_def built
    by (subst findDifferencesAndUpdate.simps) (simp only: stored pek pak eh fin root option.inject hval.inject
          if_False outcome.case prod.case)
qed

theorem array_of_leaves_update_witness:
  "length [JNum 2, JNum 1] = length [JNum 1, JNum 2] \<and>
   calculateHash (calculateHash ''1'' @ calculateHash ''2'') \<noteq> calculateHash ''[2,1]'' \<and>
   detectChanges (initialize (JArr [JNum 1, JNum 2])) (JArr [JNum 2, JNum 1]) =
     Returned
       ([(''0'', HNode [(''__hash'', HStr (calculateHash ''2''))]),
         (''1'', HNode [(''__hash'', HStr (calculateHash ''1''))]),
         (''__hash'', HStr (calculateHash (''0:'' @ calculateHash ''2'' @ ''1:'' @ calculateHash ''1'')))],
        [DifferenceEvent modified ''0'', DifferenceEvent modified ''1''])"
  using array_of_leaves_update [of "[JNum 2, JNum 1]" "[JNum 1, JNum 2]"]
  by (simp add: string_of_int_def string_of_nat.simps digit_char_def sha_1 sha_2 sha_digest_1_2 sha_arr_2_1)


section \<open>Names that a snapshot inherits\<close>

text \<open>
  Two runs in which \<^verbatim>\<open>key in jsonData\<close> finds a name that the snapshot does not hold as
  an own enumerable property. After \<^verbatim>\<open>initialize({"toString": 1})\<close> the tree has the child
  \<open>toString\<close>; at \<^verbatim>\<open>update({"a": 1})\<close> the test finds the inherited method, whose
  serialisation is \<^verbatim>\<open>undefined\<close>, and hashing that throws: no \<open>removed\<close> event, and the
  tree is as before. After \<^verbatim>\<open>initialize({"length": 1})\<close>, \<^verbatim>\<open>update([7])\<close> compares the
  child \<open>length\<close> with the length of the array, which is 1 as well, so the only event
  is the \<open>added\<close> of the index \<open>0\<close>.
\<close>

lemma inherited_method_throws:
  "detectChanges (initialize (JObj [(''toString'', JNum 1)])) (JObj [(''a'', JNum 1)])
     = TypeError (initialize (JObj [(''toString'', JNum 1)]), [])"
  by (simp add: engine_eval sha_1 sha_tostring_1 sha_obj_a_1)

lemma array_length_is_compared:
  "detectChanges (initialize (JObj [(''length'', JNum 1)])) (JArr [JNum 7])
     = Returned
         ([(''0'', HNode [(''__hash'', HStr (calculateHash ''7''))]),
           (''__hash'', HStr (calculateHash
              (''0:'' @ calculateHash ''7'' @ ''length:'' @ calculateHash ''1''))),
           (''length'', HNode [(''__hash'', HStr (calculateHash ''1''))])],
          [DifferenceEvent added ''0''])"
  by (simp add: engine_eval sha_1 sha_7 sha_length_1 sha_arr_7)

end
